theory Spec2Isabelle
  imports Complex_Main
begin

section \<open>STLSlicer: data model\<close>

text \<open>
  A shallow embedding of \<^verbatim>\<open>src/js/STLSlicer.js\<close>. JavaScript numbers are modelled as
  exact reals: no rounding, no NaN and no infinities. Where the source would produce an
  infinity or NaN (a division by zero that decides a loop bound, the initial value of a
  running minimum) the model writes the resulting behaviour out as a branch of its own.
  Every \<^verbatim>\<open>console.log\<close> is dropped.
\<close>

text \<open>A mesh vertex \<^verbatim>\<open>{x, y, z}\<close>.\<close>

record vertex =
  vx :: real
  vy :: real
  vz :: real

text \<open>A mesh triangle \<^verbatim>\<open>{v1, v2, v3}\<close>.\<close>

record triangle =
  v1 :: vertex
  v2 :: vertex
  v3 :: vertex

text \<open>A point of a layer \<^verbatim>\<open>{x, y}\<close>.\<close>

record point =
  px :: real
  py :: real

text \<open>A segment \<^verbatim>\<open>{start, end}\<close>.\<close>

record segment =
  seg_start :: point
  seg_end :: point

text \<open>A layer \<^verbatim>\<open>{layerNum, z, segments}\<close>.\<close>

record layer =
  layerNum :: nat
  layer_z :: real
  segments :: "segment list"

text \<open>The result of \<^verbatim>\<open>getBoundingBox\<close>: \<^verbatim>\<open>{min, max, size}\<close>.\<close>

record boundingBox =
  bb_min :: vertex
  bb_max :: vertex
  bb_size :: vertex

text \<open>
  The fields of the \<^verbatim>\<open>STLSlicer\<close> object that its methods read. \<^verbatim>\<open>mesh\<close> is
  \<^verbatim>\<open>null\<close> (\<open>None\<close>) until a mesh is parsed or assigned.
\<close>

record slicer =
  mesh :: "triangle list option"
  layerHeight :: real
  topBottomLayers :: int
  nozzleDiameter :: real

text \<open>
  What a call can do other than return: throw a \<^verbatim>\<open>TypeError\<close> (a property read
  on \<^verbatim>\<open>null\<close> or \<^verbatim>\<open>undefined\<close>), throw a \<^verbatim>\<open>RangeError\<close> (a
  \<^verbatim>\<open>DataView\<close> or typed-array access outside the buffer), or never return.
\<close>

datatype error = TypeError | RangeError | Diverges

section \<open>getBoundingBox\<close>

definition triangleVertices :: "triangle \<Rightarrow> vertex list" where
  "triangleVertices tri = [v1 tri, v2 tri, v3 tri]"

text \<open>
  One pass of the inner loop body over a vertex: the six guarded assignments to
  \<^verbatim>\<open>minX .. maxZ\<close>. The running minima and maxima are kept as a pair of vertices.
\<close>

definition scanVertex :: "vertex \<Rightarrow> vertex \<times> vertex \<Rightarrow> vertex \<times> vertex" where
  "scanVertex v acc =
     (case acc of (mn, mx) \<Rightarrow>
        (\<lparr> vx = (if vx v < vx mn then vx v else vx mn),
           vy = (if vy v < vy mn then vy v else vy mn),
           vz = (if vz v < vz mn then vz v else vz mn) \<rparr>,
         \<lparr> vx = (if vx v > vx mx then vx v else vx mx),
           vy = (if vy v > vy mx then vy v else vy mx),
           vz = (if vz v > vz mx then vz v else vz mx) \<rparr>))"

text \<open>
  The source starts the minima at \<^verbatim>\<open>Infinity\<close> and the maxima at
  \<^verbatim>\<open>-Infinity\<close>; the first vertex scanned therefore overwrites all six. The model
  starts from that state (the mesh is known to be non-empty at this point) and scans
  every vertex, the first one included.
\<close>

definition getBoundingBox :: "slicer \<Rightarrow> boundingBox option" where
  "getBoundingBox s =
     (case mesh s of
        None \<Rightarrow> None
      | Some [] \<Rightarrow> None
      | Some (tri # tris) \<Rightarrow>
          (case fold scanVertex (concat (map triangleVertices (tri # tris))) (v1 tri, v1 tri) of
             (mn, mx) \<Rightarrow>
               Some \<lparr> bb_min = mn, bb_max = mx,
                      bb_size = \<lparr> vx = vx mx - vx mn, vy = vy mx - vy mn, vz = vz mx - vz mn \<rparr> \<rparr>))"

section \<open>sliceAtZ and sliceMesh\<close>

text \<open>The test of one edge against the plane: zero or one intersection point.\<close>

definition edgeIntersection :: "real \<Rightarrow> vertex \<times> vertex \<Rightarrow> point list" where
  "edgeIntersection z e =
     (case e of (va, vb) \<Rightarrow>
        if (vz va \<le> z \<and> vz vb \<ge> z) \<or> (vz va \<ge> z \<and> vz vb \<le> z) then
          (if \<bar>vz va - vz vb\<bar> > 0.0001 then
             (let t = (z - vz va) / (vz vb - vz va)
              in [\<lparr> px = vx va + t * (vx vb - vx va), py = vy va + t * (vy vb - vy va) \<rparr>])
           else [])
        else [])"

definition triangleEdges :: "triangle \<Rightarrow> (vertex \<times> vertex) list" where
  "triangleEdges tri = [(v1 tri, v2 tri), (v2 tri, v3 tri), (v3 tri, v1 tri)]"

definition triangleIntersections :: "real \<Rightarrow> triangle \<Rightarrow> point list" where
  "triangleIntersections z tri = concat (map (edgeIntersection z) (triangleEdges tri))"

text \<open>The body of the loop over triangles: the segment pushed, if any.\<close>

definition triangleSegment :: "real \<Rightarrow> triangle \<Rightarrow> segment list" where
  "triangleSegment z tri =
     (case triangleIntersections z tri of
        [a, b] \<Rightarrow> [\<lparr> seg_start = a, seg_end = b \<rparr>]
      | _ \<Rightarrow> [])"

definition sliceAtZ :: "triangle list \<Rightarrow> real \<Rightarrow> segment list" where
  "sliceAtZ m z = concat (map (triangleSegment z) m)"

text \<open>The height of the plane of layer \<open>layerNum\<close>.\<close>

definition planeHeight :: "real \<Rightarrow> real \<Rightarrow> nat \<Rightarrow> real" where
  "planeHeight minz lh k = minz + (real k + 1) * lh"

text \<open>
  The loop of \<^verbatim>\<open>sliceMesh\<close> over the layer numbers still to do: a layer is pushed only
  when its plane yields a segment.
\<close>

fun sliceLoop :: "triangle list \<Rightarrow> real \<Rightarrow> real \<Rightarrow> nat list \<Rightarrow> layer list" where
  "sliceLoop m minz lh [] = []"
| "sliceLoop m minz lh (k # ks) =
     (let z = planeHeight minz lh k; segs = sliceAtZ m z
      in (if length segs > 0 then [\<lparr> layerNum = k, layer_z = z, segments = segs \<rparr>] else [])
         @ sliceLoop m minz lh ks)"

text \<open>
  \<^verbatim>\<open>Math.ceil(bbox.size.z / this.layerHeight)\<close>, for a layer height other than zero.
  The quotient is exact here; the source rounds it before taking the ceiling, which matters
  only when it is within rounding of a whole number, and then concerns one plane at the
  very top.
\<close>

definition numLayers :: "boundingBox \<Rightarrow> real \<Rightarrow> int" where
  "numLayers bbox lh = \<lceil>vz (bb_size bbox) / lh\<rceil>"

text \<open>
  \<^verbatim>\<open>sliceMesh\<close>. Without a mesh it returns \<^verbatim>\<open>null\<close> (\<open>Inr None\<close>); with an
  empty mesh the bounding box is \<^verbatim>\<open>null\<close> and reading \<^verbatim>\<open>bbox.size\<close> throws. A
  layer height of zero makes \<open>numLayers\<close> infinite when the mesh has any height (the loop
  never ends) and NaN when it has none (the loop does not run).
\<close>

definition sliceMesh :: "slicer \<Rightarrow> error + layer list option" where
  "sliceMesh s =
     (case mesh s of
        None \<Rightarrow> Inr None
      | Some m \<Rightarrow>
          (case getBoundingBox s of
             None \<Rightarrow> Inl TypeError
           | Some bbox \<Rightarrow>
               if layerHeight s = 0 then
                 (if vz (bb_size bbox) = 0 then Inr (Some []) else Inl Diverges)
               else
                 Inr (Some (sliceLoop m (vz (bb_min bbox)) (layerHeight s)
                              [0..<nat (numLayers bbox (layerHeight s))]))))"

section \<open>Mesh ingestion\<close>

text \<open>
  The file is an \<^verbatim>\<open>ArrayBuffer\<close>: a list of bytes, each a \<^typ>\<open>char\<close>. A
  \<^verbatim>\<open>DataView\<close> read outside the buffer throws a \<^verbatim>\<open>RangeError\<close>. How four bytes
  decode to a number (\<^verbatim>\<open>getFloat32\<close>) and what \<^verbatim>\<open>parseFloat\<close> makes of a token
  (or of \<^verbatim>\<open>undefined\<close>, \<open>None\<close>) are parameters of the parsers.
\<close>

definition getUint32 :: "string \<Rightarrow> nat \<Rightarrow> error + nat" where
  "getUint32 buffer off =
     (if off + 4 \<le> length buffer then
        Inr (of_char (buffer ! off) + 256 * of_char (buffer ! (off + 1))
             + 65536 * of_char (buffer ! (off + 2)) + 16777216 * of_char (buffer ! (off + 3)))
      else Inl RangeError)"

definition getFloat32 :: "(string \<Rightarrow> real) \<Rightarrow> string \<Rightarrow> nat \<Rightarrow> error + real" where
  "getFloat32 f32 buffer off =
     (if off + 4 \<le> length buffer then Inr (f32 (take 4 (drop off buffer))) else Inl RangeError)"

text \<open>The three reads of one vertex, \<open>x\<close>, \<open>y\<close> and \<open>z\<close> in this order.\<close>

definition readVertex :: "(string \<Rightarrow> real) \<Rightarrow> string \<Rightarrow> nat \<Rightarrow> error + vertex" where
  "readVertex f32 buffer off =
     (case getFloat32 f32 buffer off of
        Inl e \<Rightarrow> Inl e
      | Inr x \<Rightarrow>
          (case getFloat32 f32 buffer (off + 4) of
             Inl e \<Rightarrow> Inl e
           | Inr y \<Rightarrow>
               (case getFloat32 f32 buffer (off + 8) of
                  Inl e \<Rightarrow> Inl e
                | Inr z \<Rightarrow> Inr \<lparr> vx = x, vy = y, vz = z \<rparr>)))"

text \<open>The body of the loop of \<^verbatim>\<open>parseBinarySTL\<close> for triangle \<open>i\<close>.\<close>

definition readTriangle :: "(string \<Rightarrow> real) \<Rightarrow> string \<Rightarrow> nat \<Rightarrow> error + triangle" where
  "readTriangle f32 buffer i =
     (let offset = 84 + i * 50
      in case readVertex f32 buffer (offset + 12) of
           Inl e \<Rightarrow> Inl e
         | Inr a \<Rightarrow>
             (case readVertex f32 buffer (offset + 24) of
                Inl e \<Rightarrow> Inl e
              | Inr b \<Rightarrow>
                  (case readVertex f32 buffer (offset + 36) of
                     Inl e \<Rightarrow> Inl e
                   | Inr c \<Rightarrow> Inr \<lparr> v1 = a, v2 = b, v3 = c \<rparr>)))"

fun readTriangles :: "(string \<Rightarrow> real) \<Rightarrow> string \<Rightarrow> nat list \<Rightarrow> triangle list \<Rightarrow> error + triangle list" where
  "readTriangles f32 buffer [] triangles = Inr triangles"
| "readTriangles f32 buffer (i # is) triangles =
     (case readTriangle f32 buffer i of
        Inl e \<Rightarrow> Inl e
      | Inr tri \<Rightarrow> readTriangles f32 buffer is (triangles @ [tri]))"

text \<open>
  \<^verbatim>\<open>parseBinarySTL\<close>: the value returned, which is also what \<^verbatim>\<open>this.mesh\<close> is set
  to; on a throw \<^verbatim>\<open>this.mesh\<close> is left as it was.
\<close>

definition parseBinarySTL :: "(string \<Rightarrow> real) \<Rightarrow> string \<Rightarrow> error + triangle list" where
  "parseBinarySTL f32 buffer =
     (case getUint32 buffer 80 of
        Inl e \<Rightarrow> Inl e
      | Inr numTriangles \<Rightarrow> readTriangles f32 buffer [0..<numTriangles] [])"

text \<open>
  Strings. The text parser works on the buffer decoded as UTF-8. The model takes the bytes
  themselves as the text, which is what the decoder gives for a buffer of ASCII bytes
  (\<open>asciiText\<close> below); a buffer with other bytes (a byte order mark, a no-break space)
  is decoded, trimmed and split differently by the source, and what the model says of the
  text parser is stated for ASCII buffers only. White space is the ASCII white space (tab,
  line feed, vertical tab, form feed, carriage return, space), the white space of
  \<^verbatim>\<open>trim\<close> and \<^verbatim>\<open>\s\<close> among the ASCII characters. \<^verbatim>\<open>toLowerCase\<close> acts on the
  ASCII letters (the only characters it can turn into the letters of \<^verbatim>\<open>solid\<close> next
  to each other).
\<close>

definition asciiText :: "string \<Rightarrow> bool" where
  "asciiText str = list_all (\<lambda>c. of_char c < (128 :: nat)) str"

definition isSpace :: "char \<Rightarrow> bool" where
  "isSpace c = (c \<in> set [CHR '' '', CHR 0x09, CHR 0x0A, CHR 0x0B, CHR 0x0C, CHR 0x0D])"

definition trim :: "string \<Rightarrow> string" where
  "trim str = rev (dropWhile isSpace (rev (dropWhile isSpace str)))"

definition startsWith :: "string \<Rightarrow> string \<Rightarrow> bool" where
  "startsWith str p = (take (length p) str = p)"

fun includesStr :: "string \<Rightarrow> string \<Rightarrow> bool" where
  "includesStr [] p = (p = [])"
| "includesStr (c # cs) p = (startsWith (c # cs) p \<or> includesStr cs p)"

definition toLowerChar :: "char \<Rightarrow> char" where
  "toLowerChar c =
     (if of_char c \<ge> (65 :: nat) \<and> of_char c \<le> (90 :: nat) then char_of (of_char c + (32 :: nat)) else c)"

definition toLowerCase :: "string \<Rightarrow> string" where
  "toLowerCase str = map toLowerChar str"

text \<open>\<^verbatim>\<open>text.split('\n')\<close>: the pieces between line feeds, at least one.\<close>

fun splitLines :: "string \<Rightarrow> string list" where
  "splitLines [] = [[]]"
| "splitLines (c # cs) =
     (if c = CHR 0x0A then [] # splitLines cs
      else (case splitLines cs of l # ls \<Rightarrow> (c # l) # ls | [] \<Rightarrow> [[c]]))"

text \<open>
  \<^verbatim>\<open>trimmed.split(/\s+/)\<close> on a string without white space at either end: its maximal
  runs of other characters.
\<close>

fun splitRuns :: "string \<Rightarrow> string \<Rightarrow> string list" where
  "splitRuns run [] = (if run = [] then [] else [run])"
| "splitRuns run (c # cs) =
     (if isSpace c then (if run = [] then splitRuns [] cs else run # splitRuns [] cs)
      else splitRuns (run @ [c]) cs)"

definition splitSpaces :: "string \<Rightarrow> string list" where
  "splitSpaces str = splitRuns [] str"

text \<open>\<^verbatim>\<open>parts[k]\<close>, \<^verbatim>\<open>undefined\<close> beyond the end.\<close>

definition part :: "string list \<Rightarrow> nat \<Rightarrow> string option" where
  "part parts k = (if k < length parts then Some (parts ! k) else None)"

text \<open>The triangle under construction \<^verbatim>\<open>{v1: null, v2: null, v3: null}\<close>.\<close>

record facet =
  f1 :: "vertex option"
  f2 :: "vertex option"
  f3 :: "vertex option"

text \<open>The variables of the loop of \<^verbatim>\<open>parseASCIISTL\<close>.\<close>

record asciiState =
  triangles :: "triangle list"
  currentTriangle :: "facet option"
  vertexCount :: nat

text \<open>
  One line. A \<^verbatim>\<open>vertex\<close> line with \<open>vertexCount < 3\<close> assigns into
  \<^verbatim>\<open>currentTriangle\<close>, which throws while that is still \<^verbatim>\<open>null\<close>.
\<close>

definition asciiLine :: "(string option \<Rightarrow> real) \<Rightarrow> string \<Rightarrow> asciiState \<Rightarrow> error + asciiState" where
  "asciiLine pf line st =
     (let trimmed = trim line in
      if startsWith trimmed ''facet'' then
        Inr (st\<lparr> currentTriangle := Some \<lparr> f1 = None, f2 = None, f3 = None \<rparr>, vertexCount := 0 \<rparr>)
      else if startsWith trimmed ''vertex'' then
        (let parts = splitSpaces trimmed;
             vertex = \<lparr> vx = pf (part parts 1), vy = pf (part parts 2), vz = pf (part parts 3) \<rparr>
         in if vertexCount st < 3 then
              (case currentTriangle st of
                 None \<Rightarrow> Inl TypeError
               | Some cur \<Rightarrow>
                   Inr (st\<lparr> currentTriangle :=
                               Some (if vertexCount st = 0 then cur\<lparr> f1 := Some vertex \<rparr>
                                     else if vertexCount st = 1 then cur\<lparr> f2 := Some vertex \<rparr>
                                     else cur\<lparr> f3 := Some vertex \<rparr>),
                             vertexCount := vertexCount st + 1 \<rparr>))
            else Inr (st\<lparr> vertexCount := vertexCount st + 1 \<rparr>))
      else if startsWith trimmed ''endfacet'' then
        (case currentTriangle st of
           None \<Rightarrow> Inr st
         | Some cur \<Rightarrow>
             (case (f1 cur, f2 cur, f3 cur) of
                (Some a, Some b, Some c) \<Rightarrow>
                  Inr (st\<lparr> triangles := triangles st @ [\<lparr> v1 = a, v2 = b, v3 = c \<rparr>] \<rparr>)
              | _ \<Rightarrow> Inr st))
      else Inr st)"

fun asciiLoop :: "(string option \<Rightarrow> real) \<Rightarrow> string list \<Rightarrow> asciiState \<Rightarrow> error + asciiState" where
  "asciiLoop pf [] st = Inr st"
| "asciiLoop pf (line # lines) st =
     (case asciiLine pf line st of
        Inl e \<Rightarrow> Inl e
      | Inr st' \<Rightarrow> asciiLoop pf lines st')"

definition parseASCIISTL :: "(string option \<Rightarrow> real) \<Rightarrow> string \<Rightarrow> error + triangle list" where
  "parseASCIISTL pf buffer =
     (case asciiLoop pf (splitLines buffer)
             \<lparr> triangles = [], currentTriangle = None, vertexCount = 0 \<rparr> of
        Inl e \<Rightarrow> Inl e
      | Inr st \<Rightarrow> Inr (triangles st))"

text \<open>
  \<^verbatim>\<open>parseSTL\<close>. The view of the first 80 bytes cannot be made of a shorter buffer
  (\<^verbatim>\<open>RangeError\<close>).
\<close>

definition parseSTL :: "(string \<Rightarrow> real) \<Rightarrow> (string option \<Rightarrow> real) \<Rightarrow> string \<Rightarrow> error + triangle list" where
  "parseSTL f32 pf buffer =
     (if length buffer < 80 then Inl RangeError
      else (let header = take 80 buffer
            in if includesStr (toLowerCase header) ''solid'' then parseASCIISTL pf buffer
               else parseBinarySTL f32 buffer))"

section \<open>segmentsToPerimeter\<close>

text \<open>\<^verbatim>\<open>Math.hypot\<close> of two numbers.\<close>

definition hypot :: "real \<Rightarrow> real \<Rightarrow> real" where
  "hypot a b = sqrt (a * a + b * b)"

text \<open>
  The \<^verbatim>\<open>for\<close> loop over the unused segments: the first segment one end of which is
  within the tolerance of \<open>lastPoint\<close> is spliced out, and its other end is the point
  pushed. \<open>None\<close> when no segment connects.
\<close>

fun findConnection :: "point \<Rightarrow> segment list \<Rightarrow> (point \<times> segment list) option" where
  "findConnection lastPoint [] = None"
| "findConnection lastPoint (seg # rest) =
     (let distToStart = hypot (px lastPoint - px (seg_start seg)) (py lastPoint - py (seg_start seg));
          distToEnd = hypot (px lastPoint - px (seg_end seg)) (py lastPoint - py (seg_end seg))
      in if distToStart < 0.01 then Some (seg_end seg, rest)
         else if distToEnd < 0.01 then Some (seg_start seg, rest)
         else (case findConnection lastPoint rest of
                 None \<Rightarrow> None
               | Some (p, rest') \<Rightarrow> Some (p, seg # rest')))"

text \<open>
  The inner \<^verbatim>\<open>while (foundConnection && unusedSegments.length > 0)\<close>: it returns the
  path and the segments left. \<open>None\<close> stands for a loop that never ends.
\<close>

partial_function (option) connectLoop ::
  "point list \<Rightarrow> point \<Rightarrow> segment list \<Rightarrow> (point list \<times> segment list) option" where
  "connectLoop currentPath lastPoint unusedSegments =
     (if unusedSegments = [] then Some (currentPath, unusedSegments)
      else (case findConnection lastPoint unusedSegments of
              None \<Rightarrow> Some (currentPath, unusedSegments)
            | Some (p, rest) \<Rightarrow> connectLoop (currentPath @ [p]) p rest))"

text \<open>The outer \<^verbatim>\<open>while (unusedSegments.length > 0)\<close>.\<close>

partial_function (option) traceLoop ::
  "point list list \<Rightarrow> segment list \<Rightarrow> point list list option" where
  "traceLoop paths unusedSegments =
     (case unusedSegments of
        [] \<Rightarrow> Some paths
      | firstSeg # rest \<Rightarrow>
          Option.bind (connectLoop [seg_start firstSeg, seg_end firstSeg] (seg_end firstSeg) rest)
            (\<lambda>(currentPath, rest').
               traceLoop (if length currentPath \<ge> 3 then paths @ [currentPath] else paths) rest'))"

definition segmentsToPerimeter :: "segment list \<Rightarrow> point list list option" where
  "segmentsToPerimeter segs = (if length segs = 0 then Some [] else traceLoop [] segs)"

section \<open>Layer geometry\<close>

text \<open>The result of \<^verbatim>\<open>getLayerBoundingBox\<close>.\<close>

record layerBox =
  minX :: real
  minY :: real
  maxX :: real
  maxY :: real

definition scanPoint :: "point \<Rightarrow> layerBox \<Rightarrow> layerBox" where
  "scanPoint p b =
     \<lparr> minX = (if px p < minX b then px p else minX b),
       minY = (if py p < minY b then py p else minY b),
       maxX = (if px p > maxX b then px p else maxX b),
       maxY = (if py p > maxY b then py p else maxY b) \<rparr>"

text \<open>As in \<open>getBoundingBox\<close>, the first point overwrites the four infinities.\<close>

definition getLayerBoundingBox :: "point list \<Rightarrow> layerBox option" where
  "getLayerBoundingBox perimeter =
     (case perimeter of
        [] \<Rightarrow> None
      | p # ps \<Rightarrow>
          Some (fold scanPoint (p # ps) \<lparr> minX = px p, minY = py p, maxX = px p, maxY = py p \<rparr>))"

text \<open>
  \<^verbatim>\<open>isPointInPolygon\<close>: the loop pairs \<open>polygon[i]\<close> with \<open>polygon[j]\<close>, where \<open>j\<close> is
  the index before \<open>i\<close> and the last index for \<open>i = 0\<close>.
\<close>

definition rayCrosses :: "point \<Rightarrow> point \<times> point \<Rightarrow> bool" where
  "rayCrosses p e =
     (case e of (qi, qj) \<Rightarrow>
        ((py qi > py p) \<noteq> (py qj > py p))
        \<and> px p < (px qj - px qi) * (py p - py qi) / (py qj - py qi) + px qi)"

definition isPointInPolygon :: "point \<Rightarrow> point list \<Rightarrow> bool" where
  "isPointInPolygon p polygon =
     fold (\<lambda>e inside. if rayCrosses p e then \<not> inside else inside)
       (zip polygon (rotate (length polygon - 1) polygon)) False"

definition isPointInSolidGeometry :: "point \<Rightarrow> point list list \<Rightarrow> bool" where
  "isPointInSolidGeometry p paths =
     (fold (\<lambda>path count. if isPointInPolygon p path then count + 1 else count) paths (0::nat) mod 2 = 1)"

text \<open>
  \<^verbatim>\<open>findLinePolygonIntersections\<close> and its vertical twin: the loop pairs
  \<open>polygon[i]\<close> with \<open>polygon[(i + 1) % n]\<close>.
\<close>

definition lineCrossing :: "real \<Rightarrow> point \<times> point \<Rightarrow> real list" where
  "lineCrossing y e =
     (case e of (p1, p2) \<Rightarrow>
        if (py p1 < y \<and> py p2 \<ge> y) \<or> (py p1 \<ge> y \<and> py p2 < y) then
          (if \<bar>py p2 - py p1\<bar> > 0.0001 then
             (let t = (y - py p1) / (py p2 - py p1) in [px p1 + t * (px p2 - px p1)])
           else [])
        else [])"

definition findLinePolygonIntersections :: "real \<Rightarrow> point list \<Rightarrow> real list" where
  "findLinePolygonIntersections y polygon =
     concat (map (lineCrossing y) (zip polygon (rotate1 polygon)))"

definition verticalLineCrossing :: "real \<Rightarrow> point \<times> point \<Rightarrow> real list" where
  "verticalLineCrossing x e =
     (case e of (p1, p2) \<Rightarrow>
        if (px p1 < x \<and> px p2 \<ge> x) \<or> (px p1 \<ge> x \<and> px p2 < x) then
          (if \<bar>px p2 - px p1\<bar> > 0.0001 then
             (let t = (x - px p1) / (px p2 - px p1) in [py p1 + t * (py p2 - py p1)])
           else [])
        else [])"

definition findVerticalLinePolygonIntersections :: "real \<Rightarrow> point list \<Rightarrow> real list" where
  "findVerticalLinePolygonIntersections x polygon =
     concat (map (verticalLineCrossing x) (zip polygon (rotate1 polygon)))"

section \<open>The emitted program\<close>

text \<open>
  A line of the program. \<open>Note\<close> is a comment, a blank line or a fixed command (homing,
  temperatures, motors): a line without an \<open>E\<close> word, its text abridged. \<open>MoveZ\<close> is
  \<^verbatim>\<open>G1 Z.. F5000\<close>, \<open>Travel\<close> is \<^verbatim>\<open>G0 X.. Y..\<close> and \<open>Extrude\<close> is
  \<^verbatim>\<open>G1 X.. Y.. E..\<close>. Coordinates are kept exact (\<^verbatim>\<open>toFixed\<close> is not applied) and
  feed rates are left out.
\<close>

datatype gline =
  Note string
| MoveZ real
| Travel real real
| Extrude real real nat

text \<open>Sequencing of calls that may throw or diverge.\<close>

definition bindE :: "error + 'a \<Rightarrow> ('a \<Rightarrow> error + 'b) \<Rightarrow> error + 'b" where
  "bindE m f = (case m of Inl e \<Rightarrow> Inl e | Inr x \<Rightarrow> f x)"

section \<open>generateLayerInfill\<close>

definition infillSpacing :: "slicer \<Rightarrow> real \<Rightarrow> real" where
  "infillSpacing s density =
     (if density \<ge> 100 then nozzleDiameter s * 0.875
      else 2.0 + ((100 - density) / 100) * (20 - 2.0))"

text \<open>
  The loop over \<open>j\<close> of a horizontal scan line at height \<open>y\<close>: the sorted intersections
  are taken two by two; an odd one left over is dropped.
\<close>

fun fillRow :: "real \<Rightarrow> nat \<Rightarrow> point list list \<Rightarrow> real list \<Rightarrow> gline list" where
  "fillRow y i paths (startX # endX # rest) =
     (let midX = (startX + endX) / 2; midpoint = \<lparr> px = midX, py = y \<rparr>
      in (if \<bar>endX - startX\<bar> > 0.1 \<and> isPointInSolidGeometry midpoint paths then
            (if i mod 2 = 0 then [Travel startX y, Extrude endX y 0]
             else [Travel endX y, Extrude startX y 0])
          else [])
         @ fillRow y i paths rest)"
| "fillRow y i paths rest = []"

text \<open>The same for a vertical scan line at \<open>x\<close>.\<close>

fun fillColumn :: "real \<Rightarrow> nat \<Rightarrow> point list list \<Rightarrow> real list \<Rightarrow> gline list" where
  "fillColumn x i paths (startY # endY # rest) =
     (let midY = (startY + endY) / 2; midpoint = \<lparr> px = x, py = midY \<rparr>
      in (if \<bar>endY - startY\<bar> > 0.1 \<and> isPointInSolidGeometry midpoint paths then
            (if i mod 2 = 0 then [Travel x startY, Extrude x endY 0]
             else [Travel x endY, Extrude x startY 0])
          else [])
         @ fillColumn x i paths rest)"
| "fillColumn x i paths rest = []"

text \<open>
  The body of the loop over \<open>i\<close> once the scan line is known to be in range. Without
  paths (\<^verbatim>\<open>null\<close>) there is no intersection and nothing is pushed.
\<close>

definition scanRow :: "point list list option \<Rightarrow> real \<Rightarrow> nat \<Rightarrow> gline list" where
  "scanRow paths y i =
     (case paths of
        None \<Rightarrow> []
      | Some ps \<Rightarrow> fillRow y i ps (sort (concat (map (findLinePolygonIntersections y) ps))))"

definition scanColumn :: "point list list option \<Rightarrow> real \<Rightarrow> nat \<Rightarrow> gline list" where
  "scanColumn paths x i =
     (case paths of
        None \<Rightarrow> []
      | Some ps \<Rightarrow> fillColumn x i ps (sort (concat (map (findVerticalLinePolygonIntersections x) ps))))"

text \<open>
  The loop over \<open>i\<close>, with its \<^verbatim>\<open>break\<close> when the scan line passes the far side.
\<close>

fun scanLoop :: "(nat \<Rightarrow> real) \<Rightarrow> real \<Rightarrow> (real \<Rightarrow> nat \<Rightarrow> gline list) \<Rightarrow> nat list \<Rightarrow> gline list" where
  "scanLoop coord limit body [] = []"
| "scanLoop coord limit body (i # is) =
     (if coord i > limit then []
      else body (coord i) i @ scanLoop coord limit body is)"

text \<open>
  \<^verbatim>\<open>generateLayerInfill\<close>. The parameter \<open>pattern\<close> is not read by the source. A
  spacing of zero makes \<open>numLines\<close> infinite when there is anything to fill (the loop never
  ends, no scan line ever passing the far side), and NaN or minus infinity otherwise (the
  loop does not run).
\<close>

definition generateLayerInfill ::
  "slicer \<Rightarrow> layerBox option \<Rightarrow> string \<Rightarrow> real \<Rightarrow> point list list option \<Rightarrow> real
     \<Rightarrow> error + gline list" where
  "generateLayerInfill s bbox pattern density paths angle =
     (case bbox of
        None \<Rightarrow> Inr []
      | Some b \<Rightarrow>
          if density = 0 then Inr []
          else
            (let spacing = infillSpacing s density; inset = 0.2 in
             if angle = 90 then
               (let mnX = minX b + inset; mxX = maxX b - inset; fillWidth = mxX - mnX in
                if spacing = 0 then (if fillWidth > 0 then Inl Diverges else Inr [])
                else Inr (scanLoop (\<lambda>i. mnX + real i * spacing) (mxX + 0.01) (scanColumn paths)
                            [0..<nat (\<lceil>fillWidth / spacing\<rceil> + 1)]))
             else
               (let mnY = minY b + inset; mxY = maxY b - inset; fillHeight = mxY - mnY in
                if spacing = 0 then (if fillHeight > 0 then Inl Diverges else Inr [])
                else Inr (scanLoop (\<lambda>i. mnY + real i * spacing) (mxY + 0.01) (scanRow paths)
                            [0..<nat (\<lceil>fillHeight / spacing\<rceil> + 1)]))))"

section \<open>detectHorizontalSurfaces and analyzeLayerSequences\<close>

text \<open>The classification of a layer \<^verbatim>\<open>{isBottom, isTop}\<close>.\<close>

record layerSequence =
  isBottom :: bool
  isTop :: bool

text \<open>
  The body of the loop over triangles: the running lists of top and bottom surface
  heights. A height is pushed unless one within the tolerance is already there.
\<close>

definition surfaceStep :: "real \<Rightarrow> triangle \<Rightarrow> real list \<times> real list \<Rightarrow> real list \<times> real list" where
  "surfaceStep tolerance tri acc =
     (case acc of (topSurfaces, bottomSurfaces) \<Rightarrow>
        (let a = v1 tri; b = v2 tri; c = v3 tri;
             e1x = vx b - vx a; e1y = vy b - vy a; e1z = vz b - vz a;
             e2x = vx c - vx a; e2y = vy c - vy a; e2z = vz c - vz a;
             nx = e1y * e2z - e1z * e2y;
             ny = e1z * e2x - e1x * e2z;
             nz = e1x * e2y - e1y * e2x;
             len = sqrt (nx * nx + ny * ny + nz * nz)
         in if len = 0 then (topSurfaces, bottomSurfaces)
            else if \<bar>nz / len\<bar> > 0.5 then
              (let avgZ = (vz a + vz b + vz c) / 3 in
               if nz / len > 0 then
                 (if list_ex (\<lambda>existing. \<bar>existing - avgZ\<bar> < tolerance) topSurfaces
                  then (topSurfaces, bottomSurfaces)
                  else (topSurfaces @ [avgZ], bottomSurfaces))
               else
                 (if list_ex (\<lambda>existing. \<bar>existing - avgZ\<bar> < tolerance) bottomSurfaces
                  then (topSurfaces, bottomSurfaces)
                  else (topSurfaces, bottomSurfaces @ [avgZ])))
            else (topSurfaces, bottomSurfaces)))"

definition detectHorizontalSurfaces :: "slicer \<Rightarrow> real list \<times> real list" where
  "detectHorizontalSurfaces s =
     (case mesh s of
        None \<Rightarrow> ([], [])
      | Some m \<Rightarrow>
          (case fold (surfaceStep (layerHeight s)) m ([], []) of
             (topSurfaces, bottomSurfaces) \<Rightarrow> (sort topSurfaces, sort bottomSurfaces)))"

text \<open>The length of a segment and the total 2D length of the segments of a layer.\<close>

definition segmentLength :: "segment \<Rightarrow> real" where
  "segmentLength seg =
     (let dx = px (seg_end seg) - px (seg_start seg);
          dy = py (seg_end seg) - py (seg_start seg)
      in sqrt (dx * dx + dy * dy))"

definition pathLength :: "segment list \<Rightarrow> real" where
  "pathLength segs = fold (\<lambda>seg total. total + segmentLength seg) segs 0"

text \<open>
  The look-ahead of layer \<open>i\<close>: whether one of the next \<open>lookAheadLayers\<close> layers has
  lost more than a tenth of the path length, or all of its segments.
\<close>

definition geometryDecreases :: "slicer \<Rightarrow> layer list \<Rightarrow> nat \<Rightarrow> bool" where
  "geometryDecreases s layers i =
     (let currentSegments = length (segments (layers ! i));
          currentPathLength = pathLength (segments (layers ! i));
          lookAheadLayers = min (topBottomLayers s + 1) (int (length layers) - int i - 1)
      in list_ex
           (\<lambda>j. let nextIndex = i + j in
                 if nextIndex < length layers then
                   (let nextSegments = length (segments (layers ! nextIndex));
                        nextPathLength = pathLength (segments (layers ! nextIndex));
                        pathDecrease = ((currentPathLength - nextPathLength) / currentPathLength) * 100
                    in (pathDecrease > 10 \<and> currentPathLength > 0)
                       \<or> (nextSegments = 0 \<and> currentSegments > 0))
                 else False)
           [1..<nat (lookAheadLayers + 1)])"

text \<open>The layers that iteration \<open>i\<close> of the top-layer loop marks \<open>isTop\<close>.\<close>

definition topMarks :: "slicer \<Rightarrow> layer list \<Rightarrow> nat \<Rightarrow> nat list" where
  "topMarks s layers i =
     (if int i \<ge> int (length layers) - topBottomLayers s then [i]
      else if geometryDecreases s layers i then
        [nat (max 0 (int i - topBottomLayers s + 1))..<i + 1]
      else [])"

definition setTop :: "nat \<Rightarrow> layerSequence list \<Rightarrow> layerSequence list" where
  "setTop k sequences = sequences[k := (sequences ! k)\<lparr> isTop := True \<rparr>]"

definition setBottom :: "nat \<Rightarrow> layerSequence list \<Rightarrow> layerSequence list" where
  "setBottom k sequences = sequences[k := (sequences ! k)\<lparr> isBottom := True \<rparr>]"

text \<open>
  The layers within reach of a detected top (bottom) surface. The comparisons are those of
  the source, on exact numbers: a layer whose distance equals the tolerance is out of
  reach here, while in the source's floating-point arithmetic the rounding of the layer
  height decides on which side of the tolerance such a layer falls.
\<close>

definition nearTop :: "slicer \<Rightarrow> real \<Rightarrow> real \<Rightarrow> bool" where
  "nearTop s topZ layerZ =
     (let surfaceTolerance = real_of_int (topBottomLayers s) * layerHeight s + layerHeight s;
          distance = \<bar>topZ - layerZ\<bar>
      in distance < surfaceTolerance \<and> layerZ \<le> topZ + layerHeight s)"

definition nearBottom :: "slicer \<Rightarrow> real \<Rightarrow> real \<Rightarrow> bool" where
  "nearBottom s bottomZ layerZ =
     (let surfaceTolerance = real_of_int (topBottomLayers s) * layerHeight s + layerHeight s;
          distance = \<bar>layerZ - bottomZ\<bar>
      in distance < surfaceTolerance \<and> layerZ \<ge> bottomZ - layerHeight s)"

text \<open>\<^verbatim>\<open>analyzeLayerSequences\<close>: its four marking loops, in order.\<close>

definition analyzeLayerSequences :: "slicer \<Rightarrow> layer list \<Rightarrow> layerSequence list" where
  "analyzeLayerSequences s layers =
     (let n = length layers;
          sequences0 = replicate n \<lparr> isBottom = False, isTop = False \<rparr>
      in if n = 0 then sequences0
         else
           (case detectHorizontalSurfaces s of
              (topSurfaces, bottomSurfaces) \<Rightarrow>
                (let sequences1 = fold setBottom [0..<nat (min (topBottomLayers s) (int n))] sequences0;
                     sequences2 = fold (\<lambda>i. fold setTop (topMarks s layers i)) [0..<n] sequences1;
                     sequences3 =
                       fold (\<lambda>topZ. fold (\<lambda>i sq. if nearTop s topZ (layer_z (layers ! i))
                                                  then setTop i sq else sq) [0..<n])
                         topSurfaces sequences2;
                     sequences4 =
                       fold (\<lambda>bottomZ. fold (\<lambda>i sq. if nearBottom s bottomZ (layer_z (layers ! i))
                                                     then setBottom i sq else sq) [0..<n])
                         bottomSurfaces sequences3
                 in sequences4)))"

section \<open>generateGCode and generateGCodeWithSequences\<close>

text \<open>
  The pieces below return the lines they push together with the extrusion counter they
  leave behind.
\<close>

text \<open>The points of a path after the first: \<^verbatim>\<open>E${extrusionCounter += 3}\<close>.\<close>

fun drawPoints :: "point list \<Rightarrow> nat \<Rightarrow> gline list \<times> nat" where
  "drawPoints [] c = ([], c)"
| "drawPoints (p # ps) c =
     (case drawPoints ps (c + 3) of (ls, c') \<Rightarrow> (Extrude (px p) (py p) (c + 3) # ls, c'))"

text \<open>
  One path: a travel move unless it is the first, the first point with
  \<^verbatim>\<open>E${extrusionCounter++}\<close>, then the others. Reading \<^verbatim>\<open>path[0].x\<close> of an empty
  path throws.
\<close>

definition drawPath :: "nat \<Rightarrow> point list \<Rightarrow> nat \<Rightarrow> error + gline list \<times> nat" where
  "drawPath pathIdx path c =
     (case path of
        [] \<Rightarrow> if pathIdx > 0 then Inl TypeError else Inr ([], c)
      | p # ps \<Rightarrow>
          (case drawPoints ps (c + 1) of
             (ls, c') \<Rightarrow>
               Inr ((if pathIdx > 0 then [Travel (px p) (py p)] else [])
                    @ Extrude (px p) (py p) c # ls, c')))"

fun drawPaths :: "nat \<Rightarrow> point list list \<Rightarrow> nat \<Rightarrow> error + gline list \<times> nat" where
  "drawPaths pathIdx [] c = Inr ([], c)"
| "drawPaths pathIdx (path # paths) c =
     bindE (drawPath pathIdx path c) (\<lambda>(ls, c').
       bindE (drawPaths (pathIdx + 1) paths c') (\<lambda>(ls', c''). Inr (ls @ ls', c'')))"

text \<open>
  \<^verbatim>\<open>line.replace(/E\d+/g, ...)\<close> over the lines of an infill: an \<open>Extrude\<close> line gets
  the counter advanced by 3, any other line has no \<open>E\<close> word and is pushed as it is.
\<close>

fun renumber :: "gline list \<Rightarrow> nat \<Rightarrow> gline list \<times> nat" where
  "renumber [] c = ([], c)"
| "renumber (l # ls) c =
     (case l of
        Extrude x y e \<Rightarrow>
          (case renumber ls (c + 3) of (ls', c') \<Rightarrow> (Extrude x y (c + 3) # ls', c'))
      | _ \<Rightarrow>
          (case renumber ls c of (ls', c') \<Rightarrow> (l # ls', c')))"

text \<open>One call of \<^verbatim>\<open>generateLayerInfill\<close> and the loop that pushes its lines.\<close>

definition fillWith ::
  "slicer \<Rightarrow> layerBox option \<Rightarrow> string \<Rightarrow> real \<Rightarrow> point list list \<Rightarrow> real \<Rightarrow> nat
     \<Rightarrow> error + gline list \<times> nat" where
  "fillWith s bbox pattern density paths angle c =
     bindE (generateLayerInfill s bbox pattern density (Some paths) angle) (\<lambda>lines.
       Inr (renumber lines c))"

text \<open>The solid infill of a top or bottom layer, the same in both generators.\<close>

definition solidInfill :: "slicer \<Rightarrow> layerBox option \<Rightarrow> point list list \<Rightarrow> nat \<Rightarrow> error + gline list \<times> nat" where
  "solidInfill s bbox paths c =
     bindE (fillWith s bbox ''lines'' 100 paths 0 c) (\<lambda>(ls1, c1).
       bindE (fillWith s bbox ''lines'' 100 paths 90 c1) (\<lambda>(ls2, c2).
         Inr (Note ''; Solid layer'' # ls1 @ ls2, c2)))"

text \<open>The sparse infill of \<^verbatim>\<open>generateGCode\<close>.\<close>

definition sparseInfill ::
  "slicer \<Rightarrow> string \<Rightarrow> real \<Rightarrow> layerBox option \<Rightarrow> point list list \<Rightarrow> nat \<Rightarrow> error + gline list \<times> nat" where
  "sparseInfill s infillPattern infillDensity bbox paths c =
     (if infillDensity > 0 then
        (if infillPattern = ''grid'' then
           bindE (fillWith s bbox ''lines'' infillDensity paths 0 c) (\<lambda>(ls1, c1).
             bindE (fillWith s bbox ''lines'' infillDensity paths 90 c1) (\<lambda>(ls2, c2).
               Inr (Note ''; Sparse infill'' # ls1 @ ls2, c2)))
         else
           bindE (fillWith s bbox infillPattern infillDensity paths 0 c) (\<lambda>(ls, c1).
             Inr (Note ''; Sparse infill'' # ls, c1)))
      else Inr ([], c))"

text \<open>The sparse infill of \<^verbatim>\<open>generateGCodeWithSequences\<close>.\<close>

definition sparseInfillSeq ::
  "slicer \<Rightarrow> string \<Rightarrow> real \<Rightarrow> layerBox option \<Rightarrow> point list list \<Rightarrow> nat \<Rightarrow> error + gline list \<times> nat" where
  "sparseInfillSeq s infillPattern infillDensity bbox paths c =
     (if infillDensity > 0 then
        bindE (fillWith s bbox infillPattern infillDensity paths 0 c) (\<lambda>(ls, c1).
          Inr (Note ''; Sparse infill'' # ls, c1))
      else Inr ([], c))"

text \<open>
  The body of the loop over layers. \<open>sparse\<close> is the sparse infill of the generator,
  \<open>trailer\<close> what it pushes at the end of a layer. Reading \<^verbatim>\<open>sequences[i].isBottom\<close>
  beyond the end of \<open>sequences\<close> throws.
\<close>

definition emitLayer ::
  "slicer \<Rightarrow> (layerBox option \<Rightarrow> point list list \<Rightarrow> nat \<Rightarrow> error + gline list \<times> nat) \<Rightarrow> gline list
     \<Rightarrow> layerSequence list \<Rightarrow> layer list \<Rightarrow> nat \<Rightarrow> nat \<Rightarrow> error + gline list \<times> nat" where
  "emitLayer s sparse trailer sequences layers i c =
     (let layer = layers ! i;
          head = [Note ''; Layer'', MoveZ (layer_z layer)]
      in case segmentsToPerimeter (segments layer) of
           None \<Rightarrow> Inl Diverges
         | Some paths \<Rightarrow>
             if length paths > 0 then
               (if i < length sequences then
                  (let isBottomLayer = isBottom (sequences ! i);
                       isTopLayer = isTop (sequences ! i);
                       isSolidLayer = isBottomLayer \<or> isTopLayer
                   in bindE (drawPaths 0 paths c) (\<lambda>(perimeter, c1).
                        let allPoints = concat paths;
                            bbox = getLayerBoundingBox allPoints
                        in bindE (if isSolidLayer then solidInfill s bbox paths c1
                                  else sparse bbox paths c1) (\<lambda>(infill, c2).
                             Inr (head @ perimeter @ infill @ trailer, c2))))
                else Inl TypeError)
             else Inr (head @ trailer, c))"

fun emitLayers ::
  "(nat \<Rightarrow> nat \<Rightarrow> error + gline list \<times> nat) \<Rightarrow> nat list \<Rightarrow> nat \<Rightarrow> error + gline list \<times> nat" where
  "emitLayers body [] c = Inr ([], c)"
| "emitLayers body (i # is) c =
     bindE (body i c) (\<lambda>(ls, c').
       bindE (emitLayers body is c') (\<lambda>(ls', c''). Inr (ls @ ls', c'')))"

definition header :: "slicer \<Rightarrow> gline list" where
  "header s =
     [Note ''; Generated by 3D Printer Simulator - STL Slicer'', Note ''; Layer Height'',
      Note ''; Infill'', Note ''; Top/Bottom Solid Layers'', Note [], Note ''G28'',
      Note ''M104'', Note ''M140'', MoveZ (layerHeight s), Note []]"

definition headerSeq :: "slicer \<Rightarrow> gline list" where
  "headerSeq s =
     [Note ''; Generated by 3D Printer Simulator - STL Slicer'', Note ''; Layer Height'',
      Note ''; Infill'', Note ''; Top/Bottom Solid Layers'',
      Note ''; Multi-model per-model top/bottom detection enabled'', Note [], Note ''G28'',
      Note ''M104'', Note ''M140'', MoveZ (layerHeight s), Note []]"

text \<open>The footer reads the height of the last layer, which throws when there is none.\<close>

definition footer :: "layer list \<Rightarrow> error + gline list" where
  "footer layers =
     (if layers = [] then Inl TypeError
      else Inr [Note ''; Finish'', MoveZ (layer_z (last layers) + 10), Note ''M104 S0'',
                Note ''M140 S0'', Note ''G28 X Y'', Note ''M84''])"

definition footerSeq :: "layer list \<Rightarrow> error + gline list" where
  "footerSeq layers =
     (if layers = [] then Inl TypeError
      else Inr [Note [], Note ''; Print complete'', MoveZ (layer_z (last layers) + 10),
                Note ''M104 S0'', Note ''M140 S0'', Note ''G28 X0 Y0'', Note ''M84''])"

text \<open>
  \<^verbatim>\<open>generateGCode\<close>: \<^verbatim>\<open>let extrusionCounter = 0\<close>, the layer classification computed
  from the layers, and a blank line after each layer.
\<close>

definition generateGCode :: "slicer \<Rightarrow> layer list \<Rightarrow> string \<Rightarrow> real \<Rightarrow> error + gline list" where
  "generateGCode s layers infillPattern infillDensity =
     (let layerSequences = analyzeLayerSequences s layers in
      bindE (emitLayers
               (emitLayer s (sparseInfill s infillPattern infillDensity) [Note []] layerSequences layers)
               [0..<length layers] 0) (\<lambda>(body, c).
        bindE (footer layers) (\<lambda>foot. Inr (header s @ body @ foot))))"

text \<open>\<^verbatim>\<open>generateGCodeWithSequences\<close>: the classification is an argument.\<close>

definition generateGCodeWithSequences ::
  "slicer \<Rightarrow> layer list \<Rightarrow> string \<Rightarrow> real \<Rightarrow> layerSequence list \<Rightarrow> error + gline list" where
  "generateGCodeWithSequences s layers infillPattern infillDensity sequences =
     bindE (emitLayers
              (emitLayer s (sparseInfillSeq s infillPattern infillDensity) [] sequences layers)
              [0..<length layers] 0) (\<lambda>(body, c).
       bindE (footerSeq layers) (\<lambda>foot. Inr (headerSeq s @ body @ foot)))"

text \<open>The \<open>E\<close> values of a program, in emission order.\<close>

fun evalue :: "gline \<Rightarrow> nat list" where
  "evalue (Extrude x y e) = [e]"
| "evalue l = []"

definition evalues :: "gline list \<Rightarrow> nat list" where
  "evalues prog = concat (map evalue prog)"

section \<open>Notions used in the statements\<close>

text \<open>Two points closer than the stitching tolerance, by their squared distance.\<close>

definition near :: "point \<Rightarrow> point \<Rightarrow> bool" where
  "near p q \<longleftrightarrow> (px p - px q) * (px p - px q) + (py p - py q) * (py p - py q) < 1 / 10000"

text \<open>
  A piece of program that starts with the counter at \<open>c\<close> and leaves it at \<open>c'\<close>: its
  \<open>E\<close> values are in order and lie between the two, and the counter moves exactly when a
  value is written.
\<close>

definition advances :: "nat \<Rightarrow> gline list \<Rightarrow> nat \<Rightarrow> bool" where
  "advances c ls c' \<longleftrightarrow>
     sorted (evalues ls) \<and> list_all (\<lambda>e. c \<le> e \<and> e \<le> c') (evalues ls) \<and> c \<le> c'
     \<and> (evalues ls = [] \<and> c' = c \<or> evalues ls \<noteq> [] \<and> c < c')"

text \<open>The first \<open>E\<close> value of a piece, if it has one, is \<open>c\<close>.\<close>

definition startsAt :: "nat \<Rightarrow> gline list \<Rightarrow> bool" where
  "startsAt c ls \<longleftrightarrow> (case evalues ls of [] \<Rightarrow> True | e # _ \<Rightarrow> e = c)"

text \<open>
  The fill segments of a list of lines: each travel move that an extruding move follows,
  with the two end points; and the middle of a segment.
\<close>

fun fills :: "gline list \<Rightarrow> (point \<times> point) list" where
  "fills (Travel a b # Extrude c d e # rest) = (\<lparr>px = a, py = b\<rparr>, \<lparr>px = c, py = d\<rparr>) # fills rest"
| "fills (l # rest) = fills rest"
| "fills [] = []"

definition midpoint :: "point \<times> point \<Rightarrow> point" where
  "midpoint seg = \<lparr> px = (px (fst seg) + px (snd seg)) / 2, py = (py (fst seg) + py (snd seg)) / 2 \<rparr>"

section \<open>Example inputs\<close>

text \<open>A unit tetrahedron on the plate, sliced at a layer height of 0.3.\<close>

definition tetra :: "triangle list" where
  "tetra =
    [\<lparr> v1 = \<lparr>vx = 0, vy = 0, vz = 0\<rparr>, v2 = \<lparr>vx = 0, vy = 1, vz = 0\<rparr>, v3 = \<lparr>vx = 1, vy = 0, vz = 0\<rparr> \<rparr>,
     \<lparr> v1 = \<lparr>vx = 0, vy = 0, vz = 0\<rparr>, v2 = \<lparr>vx = 1, vy = 0, vz = 0\<rparr>, v3 = \<lparr>vx = 0, vy = 0, vz = 1\<rparr> \<rparr>,
     \<lparr> v1 = \<lparr>vx = 0, vy = 0, vz = 0\<rparr>, v2 = \<lparr>vx = 0, vy = 0, vz = 1\<rparr>, v3 = \<lparr>vx = 0, vy = 1, vz = 0\<rparr> \<rparr>,
     \<lparr> v1 = \<lparr>vx = 1, vy = 0, vz = 0\<rparr>, v2 = \<lparr>vx = 0, vy = 1, vz = 0\<rparr>, v3 = \<lparr>vx = 0, vy = 0, vz = 1\<rparr> \<rparr>]"

definition tetraSlicer :: slicer where
  "tetraSlicer = \<lparr> mesh = Some tetra, layerHeight = 0.3, topBottomLayers = 3, nozzleDiameter = 0.4 \<rparr>"

definition tetraBox :: boundingBox where
  "tetraBox = \<lparr> bb_min = \<lparr>vx = 0, vy = 0, vz = 0\<rparr>, bb_max = \<lparr>vx = 1, vy = 1, vz = 1\<rparr>,
                bb_size = \<lparr>vx = 1, vy = 1, vz = 1\<rparr> \<rparr>"

definition triangleLoop :: "real \<Rightarrow> segment list" where
  "triangleLoop a =
     [\<lparr>seg_start = \<lparr>px = a, py = 0\<rparr>, seg_end = \<lparr>px = 0, py = 0\<rparr>\<rparr>,
      \<lparr>seg_start = \<lparr>px = 0, py = 0\<rparr>, seg_end = \<lparr>px = 0, py = a\<rparr>\<rparr>,
      \<lparr>seg_start = \<lparr>px = 0, py = a\<rparr>, seg_end = \<lparr>px = a, py = 0\<rparr>\<rparr>]"

definition tetraLayers :: "layer list" where
  "tetraLayers =
     [\<lparr>layerNum = 0, layer_z = 3 / 10, segments = triangleLoop (7 / 10)\<rparr>,
      \<lparr>layerNum = 1, layer_z = 3 / 5, segments = triangleLoop (2 / 5)\<rparr>,
      \<lparr>layerNum = 2, layer_z = 9 / 10, segments = triangleLoop (1 / 10)\<rparr>]"

text \<open>
  A binary file of 134 bytes whose count field says no triangle, and a text file whose only
  record has two vertices.
\<close>

definition binaryExtra :: string where
  "binaryExtra = replicate 84 (CHR 0x00) @ replicate 50 (CHR 0x00)"

definition asciiTwoVertices :: string where
  "asciiTwoVertices = ''solid s\<newline>facet normal 0 0 1\<newline>outer loop\<newline>vertex 0 0 0\<newline>vertex 1 0 0\<newline>endloop\<newline>endfacet\<newline>endsolid s''"

text \<open>
  A binary file of one triangle whose 80-byte header reads \<^verbatim>\<open>binary solid\<close>, padded
  with blanks.
\<close>

definition binarySolid :: string where
  "binarySolid =
     ''binary solid                                                                    ''
     @ [CHR 0x01, CHR 0x00, CHR 0x00, CHR 0x00]
     @ ''00000000000000000000000000000000000000000000000000''"

definition zeroVertex :: vertex where
  "zeroVertex = \<lparr> vx = 0, vy = 0, vz = 0 \<rparr>"

text \<open>
  A \<^verbatim>\<open>vertex\<close> line comes before every \<^verbatim>\<open>facet\<close> line: the first line that starts
  with either keyword starts with \<^verbatim>\<open>vertex\<close>.
\<close>

definition vertexBeforeFacet :: "string list \<Rightarrow> bool" where
  "vertexBeforeFacet lines =
     (case dropWhile (\<lambda>l. \<not> startsWith (trim l) ''facet'' \<and> \<not> startsWith (trim l) ''vertex'') lines of
        [] \<Rightarrow> False
      | l # _ \<Rightarrow> startsWith (trim l) ''vertex'')"

text \<open>
  A square of 20 by 20 as the tracer gets it and as it returns it, a layer made of it, and a
  slicer without a mesh and without solid layers.
\<close>

definition squareLoop :: "segment list" where
  "squareLoop =
     [\<lparr>seg_start = \<lparr>px = 0, py = 0\<rparr>, seg_end = \<lparr>px = 20, py = 0\<rparr>\<rparr>,
      \<lparr>seg_start = \<lparr>px = 20, py = 0\<rparr>, seg_end = \<lparr>px = 20, py = 20\<rparr>\<rparr>,
      \<lparr>seg_start = \<lparr>px = 20, py = 20\<rparr>, seg_end = \<lparr>px = 0, py = 20\<rparr>\<rparr>,
      \<lparr>seg_start = \<lparr>px = 0, py = 20\<rparr>, seg_end = \<lparr>px = 0, py = 0\<rparr>\<rparr>]"

definition squarePath :: "point list" where
  "squarePath = [\<lparr>px = 0, py = 0\<rparr>, \<lparr>px = 20, py = 0\<rparr>, \<lparr>px = 20, py = 20\<rparr>, \<lparr>px = 0, py = 20\<rparr>, \<lparr>px = 0, py = 0\<rparr>]"

definition plainSlicer :: slicer where
  "plainSlicer = \<lparr> mesh = None, layerHeight = 0.2, topBottomLayers = 0, nozzleDiameter = 0.4 \<rparr>"

definition squareLayers :: "layer list" where
  "squareLayers = [\<lparr> layerNum = 0, layer_z = 0.2, segments = squareLoop \<rparr>]"

definition squareBox :: layerBox where
  "squareBox = \<lparr> minX = 0, minY = 0, maxX = 20, maxY = 20 \<rparr>"

text \<open>The inner square of a ring: 10 by 10, with the same centre.\<close>

definition innerPath :: "point list" where
  "innerPath = [\<lparr>px = 5, py = 5\<rparr>, \<lparr>px = 15, py = 5\<rparr>, \<lparr>px = 15, py = 15\<rparr>, \<lparr>px = 5, py = 15\<rparr>, \<lparr>px = 5, py = 5\<rparr>]"

text \<open>
  The programs of the two generators for the square layer, grid pattern at 20 percent.
\<close>

definition squarePerimeter :: "gline list" where
  "squarePerimeter = [Extrude 0 0 0, Extrude 20 0 4, Extrude 20 20 7, Extrude 0 20 10, Extrude 0 0 13]"

definition gridProgram :: "gline list" where
  "gridProgram = header plainSlicer @ [Note ''; Layer'', MoveZ (1 / 5)] @ squarePerimeter
     @ [Note ''; Sparse infill'', Travel 0 (1 / 5), Extrude 20 (1 / 5) 16, Travel 20 (83 / 5), Extrude 0 (83 / 5) 19,
        Travel (1 / 5) 0, Extrude (1 / 5) 20 22, Travel (83 / 5) 20, Extrude (83 / 5) 0 25]
     @ [Note [], Note ''; Finish'', MoveZ (51 / 5), Note ''M104 S0'', Note ''M140 S0'', Note ''G28 X Y'', Note ''M84'']"

definition linesProgram :: "gline list" where
  "linesProgram = headerSeq plainSlicer @ [Note ''; Layer'', MoveZ (1 / 5)] @ squarePerimeter
     @ [Note ''; Sparse infill'', Travel 0 (1 / 5), Extrude 20 (1 / 5) 16, Travel 20 (83 / 5), Extrude 0 (83 / 5) 19]
     @ [Note [], Note ''; Print complete'', MoveZ (51 / 5), Note ''M104 S0'', Note ''M140 S0'', Note ''G28 X0 Y0'', Note ''M84'']"

text \<open>
  The cube of 20 by 20 by 20 on the plate, as twelve triangles with outward normals, at a
  layer height of 0.2 with three solid layers; its bounding box; and its layers in closed
  form: layer \<open>k\<close> lies at \<open>(k + 1) / 5\<close> and has the eight segments \<open>cubeSegments\<close>.
\<close>

definition vertexAt :: "real \<Rightarrow> real \<Rightarrow> real \<Rightarrow> vertex" where
  "vertexAt a b c = \<lparr> vx = a, vy = b, vz = c \<rparr>"

definition triangleOf :: "vertex \<Rightarrow> vertex \<Rightarrow> vertex \<Rightarrow> triangle" where
  "triangleOf a b c = \<lparr> v1 = a, v2 = b, v3 = c \<rparr>"

definition cube :: "triangle list" where
  "cube =
     [triangleOf (vertexAt 0 0 0) (vertexAt 0 20 0) (vertexAt 20 20 0), triangleOf (vertexAt 0 0 0) (vertexAt 20 20 0) (vertexAt 20 0 0),
      triangleOf (vertexAt 0 0 20) (vertexAt 20 0 20) (vertexAt 20 20 20), triangleOf (vertexAt 0 0 20) (vertexAt 20 20 20) (vertexAt 0 20 20),
      triangleOf (vertexAt 0 0 0) (vertexAt 20 0 0) (vertexAt 20 0 20), triangleOf (vertexAt 0 0 0) (vertexAt 20 0 20) (vertexAt 0 0 20),
      triangleOf (vertexAt 0 20 0) (vertexAt 20 20 20) (vertexAt 20 20 0), triangleOf (vertexAt 0 20 0) (vertexAt 0 20 20) (vertexAt 20 20 20),
      triangleOf (vertexAt 0 0 0) (vertexAt 0 0 20) (vertexAt 0 20 20), triangleOf (vertexAt 0 0 0) (vertexAt 0 20 20) (vertexAt 0 20 0),
      triangleOf (vertexAt 20 0 0) (vertexAt 20 20 0) (vertexAt 20 20 20), triangleOf (vertexAt 20 0 0) (vertexAt 20 20 20) (vertexAt 20 0 20)]"

definition cubeSlicer :: slicer where
  "cubeSlicer = \<lparr> mesh = Some cube, layerHeight = 0.2, topBottomLayers = 3, nozzleDiameter = 0.4 \<rparr>"

definition cubeBox :: boundingBox where
  "cubeBox = \<lparr> bb_min = vertexAt 0 0 0, bb_max = vertexAt 20 20 20, bb_size = vertexAt 20 20 20 \<rparr>"

definition pointAt :: "real \<Rightarrow> real \<Rightarrow> point" where
  "pointAt a b = \<lparr> px = a, py = b \<rparr>"

definition segmentOf :: "point \<Rightarrow> point \<Rightarrow> segment" where
  "segmentOf a b = \<lparr> seg_start = a, seg_end = b \<rparr>"

definition cubeSegments :: "real \<Rightarrow> segment list" where
  "cubeSegments z =
     [segmentOf (pointAt 20 0) (pointAt z 0), segmentOf (pointAt z 0) (pointAt 0 0), segmentOf (pointAt z 20) (pointAt 20 20), segmentOf (pointAt 0 20) (pointAt z 20),
      segmentOf (pointAt 0 0) (pointAt 0 z), segmentOf (pointAt 0 z) (pointAt 0 20), segmentOf (pointAt 20 20) (pointAt 20 z), segmentOf (pointAt 20 z) (pointAt 20 0)]"

definition cubeLayer :: "nat \<Rightarrow> layer" where
  "cubeLayer k = \<lparr> layerNum = k, layer_z = (real k + 1) / 5, segments = cubeSegments ((real k + 1) / 5) \<rparr>"

definition cubeLayers :: "layer list" where
  "cubeLayers = map cubeLayer [0..<100]"

section \<open>Bounding box\<close>

lemma fold_scanVertex_bounds:
  "fold scanVertex vs (mn0, mx0) = (mn, mx) \<Longrightarrow>
     vz mn \<le> vz mn0 \<and> vz mx0 \<le> vz mx \<and> (\<forall>v\<in>set vs. vz mn \<le> vz v \<and> vz v \<le> vz mx)"
proof (induction vs arbitrary: mn0 mx0)
  case Nil
  then show ?case by simp
next
  case (Cons v vs)
  obtain mn1 mx1 where s: "scanVertex v (mn0, mx0) = (mn1, mx1)"
    by (cases "scanVertex v (mn0, mx0)")
  then have 1: "vz mn1 \<le> vz mn0" "vz mx0 \<le> vz mx1" "vz mn1 \<le> vz v" "vz v \<le> vz mx1"
    by (auto simp: scanVertex_def)
  from Cons.prems s have "fold scanVertex vs (mn1, mx1) = (mn, mx)" by simp
  from Cons.IH[OF this] 1 show ?case by fastforce
qed

lemma getBoundingBox_bounds:
  assumes "mesh s = Some m" "getBoundingBox s = Some bbox"
  shows "\<forall>v\<in>set (concat (map triangleVertices m)).
           vz (bb_min bbox) \<le> vz v \<and> vz v \<le> vz (bb_max bbox)"
    and "vz (bb_size bbox) = vz (bb_max bbox) - vz (bb_min bbox)"
proof -
  from assms obtain tri tris where m: "m = tri # tris"
    by (cases m) (auto simp: getBoundingBox_def)
  obtain mn mx where
    f: "fold scanVertex (concat (map triangleVertices m)) (v1 tri, v1 tri) = (mn, mx)"
    by (cases "fold scanVertex (concat (map triangleVertices m)) (v1 tri, v1 tri)")
  with assms m have bb: "bb_min bbox = mn" "bb_max bbox = mx" "vz (bb_size bbox) = vz mx - vz mn"
    by (auto simp: getBoundingBox_def)
  from fold_scanVertex_bounds[OF f] bb
  show "\<forall>v\<in>set (concat (map triangleVertices m)).
          vz (bb_min bbox) \<le> vz v \<and> vz v \<le> vz (bb_max bbox)"
    by simp
  from bb show "vz (bb_size bbox) = vz (bb_max bbox) - vz (bb_min bbox)" by simp
qed

lemma getBoundingBox_nonempty:
  "mesh s = Some (tri # tris) \<Longrightarrow> \<exists>bbox. getBoundingBox s = Some bbox"
  by (simp add: getBoundingBox_def split: prod.splits)

lemma tetra_bbox: "getBoundingBox tetraSlicer = Some tetraBox"
  by (simp add: getBoundingBox_def tetraSlicer_def tetra_def tetraBox_def
      triangleVertices_def scanVertex_def)

text \<open>
  C9. \<^verbatim>\<open>getBoundingBox\<close> returns \<^verbatim>\<open>null\<close> when the mesh is \<^verbatim>\<open>null\<close> or has
  no triangle, and only then: a mesh with a triangle always gets a bounding box, so the
  return value alone tells the empty case apart.
\<close>

theorem getBoundingBox_null_iff_empty:
  "getBoundingBox s = None \<longleftrightarrow> mesh s = None \<or> mesh s = Some []"
  by (simp add: getBoundingBox_def split: option.splits list.splits prod.splits)

section \<open>Slicing\<close>

lemma sliceLoop_layerNums:
  "map layerNum (sliceLoop m minz lh ks) =
     filter (\<lambda>k. sliceAtZ m (planeHeight minz lh k) \<noteq> []) ks"
  by (induction ks) (simp_all add: Let_def)

lemma sliceLoop_member:
  "l \<in> set (sliceLoop m minz lh ks) \<Longrightarrow>
     \<exists>k\<in>set ks. layerNum l = k \<and> layer_z l = planeHeight minz lh k
        \<and> segments l = sliceAtZ m (layer_z l) \<and> segments l \<noteq> []"
  by (induction ks) (auto simp: Let_def split: if_splits)

lemma edgeIntersection_between:
  "edgeIntersection z (va, vb) \<noteq> [] \<Longrightarrow>
     (vz va \<le> z \<and> z \<le> vz vb) \<or> (vz vb \<le> z \<and> z \<le> vz va)"
  by (auto simp: edgeIntersection_def split: if_splits)

lemma triangleSegment_between:
  assumes "triangleSegment z tri \<noteq> []"
  shows "\<exists>a\<in>set (triangleVertices tri). \<exists>b\<in>set (triangleVertices tri). vz a \<le> z \<and> z \<le> vz b"
proof -
  from assms have "triangleIntersections z tri \<noteq> []"
    by (auto simp: triangleSegment_def)
  then obtain e where e: "e \<in> set (triangleEdges tri)" "edgeIntersection z e \<noteq> []"
    by (auto simp: triangleIntersections_def)
  obtain va vb where ab: "e = (va, vb)" by (cases e)
  from e(1) ab have "va \<in> set (triangleVertices tri)" "vb \<in> set (triangleVertices tri)"
    by (auto simp: triangleEdges_def triangleVertices_def)
  with edgeIntersection_between[of z va vb] e(2) ab show ?thesis by blast
qed

lemma sliceAtZ_between:
  assumes "sliceAtZ m z \<noteq> []"
  shows "\<exists>a\<in>set (concat (map triangleVertices m)). \<exists>b\<in>set (concat (map triangleVertices m)).
           vz a \<le> z \<and> z \<le> vz b"
proof -
  from assms obtain tri where "tri \<in> set m" "triangleSegment z tri \<noteq> []"
    by (auto simp: sliceAtZ_def)
  with triangleSegment_between[of z tri] show ?thesis by fastforce
qed

lemma sliceMesh_nonempty:
  assumes "mesh s = Some m" "getBoundingBox s = Some bbox" "layerHeight s \<noteq> 0"
  shows "sliceMesh s = Inr (Some (sliceLoop m (vz (bb_min bbox)) (layerHeight s)
                                    [0..<nat (numLayers bbox (layerHeight s))]))"
  using assms by (simp add: sliceMesh_def)

lemma tetra_numLayers: "numLayers tetraBox (3 / 10) = 4"
  by (simp add: numLayers_def tetraBox_def ceiling_eq_iff)

lemma upt_4: "[0..<4] = [0, 1, 2, 3]"
  by (simp add: upt_rec)

lemma tetra_sliceLoop: "sliceLoop tetra 0 (3 / 10) [0, 1, 2, 3] = tetraLayers"
  by (simp add: sliceAtZ_def triangleSegment_def triangleIntersections_def triangleEdges_def
      edgeIntersection_def planeHeight_def tetra_def tetraLayers_def triangleLoop_def Let_def)

lemma tetra_sliceMesh: "sliceMesh tetraSlicer = Inr (Some tetraLayers)"
proof -
  have m: "mesh tetraSlicer = Some tetra" and lh: "layerHeight tetraSlicer = 3 / 10"
    and mz: "vz (bb_min tetraBox) = 0"
    by (simp_all add: tetraSlicer_def tetraBox_def)
  have "sliceMesh tetraSlicer =
      Inr (Some (sliceLoop tetra (vz (bb_min tetraBox)) (layerHeight tetraSlicer)
                   [0..<nat (numLayers tetraBox (layerHeight tetraSlicer))]))"
    by (rule sliceMesh_nonempty[OF m tetra_bbox]) (simp add: lh)
  also have "nat (numLayers tetraBox (layerHeight tetraSlicer)) = 4"
    by (simp add: lh tetra_numLayers)
  finally show ?thesis
    by (simp only: lh mz upt_4 tetra_sliceLoop)
qed

text \<open>
  C2, as stated: the number of layers \<^verbatim>\<open>sliceMesh\<close> returns is
  \<open>ceil(size.z / layerHeight)\<close>. It fails on the tetrahedron: four planes are tried, the
  last one (at 1.2) lies above the mesh and yields no segment, and three layers come back.
\<close>

theorem sliceMesh_layer_count_counterexample:
  "mesh tetraSlicer = Some tetra \<and> tetra \<noteq> [] \<and> 0 < layerHeight tetraSlicer
   \<and> getBoundingBox tetraSlicer = Some tetraBox
   \<and> \<lceil>vz (bb_size tetraBox) / layerHeight tetraSlicer\<rceil> = 4
   \<and> map_sum id (map_option length) (sliceMesh tetraSlicer) = Inr (Some 3)"
proof -
  have lh: "layerHeight tetraSlicer = 3 / 10" and m: "mesh tetraSlicer = Some tetra"
    and sz: "vz (bb_size tetraBox) = 1"
    by (simp_all add: tetraSlicer_def tetraBox_def)
  have "\<lceil>vz (bb_size tetraBox) / layerHeight tetraSlicer\<rceil> = 4"
    using tetra_numLayers by (simp only: numLayers_def lh)
  moreover have "tetra \<noteq> []" "length tetraLayers = 3"
    by (simp_all add: tetra_def tetraLayers_def)
  ultimately show ?thesis
    by (simp add: lh m tetra_bbox tetra_sliceMesh)
qed

text \<open>
  C2, amended: the layers returned are those layer numbers below
  \<open>ceil(size.z / layerHeight)\<close> whose plane yields at least one segment, in increasing
  order and keeping their own number; so there are at most \<open>ceil(size.z / layerHeight)\<close>
  of them.
\<close>

theorem sliceMesh_layer_count:
  assumes "mesh s = Some (tri # tris)" and "0 < layerHeight s"
  shows "\<exists>bbox layers. getBoundingBox s = Some bbox \<and> sliceMesh s = Inr (Some layers)
           \<and> map layerNum layers =
               filter (\<lambda>k. sliceAtZ (tri # tris) (planeHeight (vz (bb_min bbox)) (layerHeight s) k) \<noteq> [])
                 [0..<nat \<lceil>vz (bb_size bbox) / layerHeight s\<rceil>]
           \<and> int (length layers) \<le> \<lceil>vz (bb_size bbox) / layerHeight s\<rceil>"
proof -
  from assms(1) obtain bbox where bb: "getBoundingBox s = Some bbox"
    using getBoundingBox_nonempty by blast
  let ?n = "nat (numLayers bbox (layerHeight s))"
  let ?layers = "sliceLoop (tri # tris) (vz (bb_min bbox)) (layerHeight s) [0..<?n]"
  have sm: "sliceMesh s = Inr (Some ?layers)"
    using sliceMesh_nonempty[OF assms(1) bb] assms(2) by simp
  have nums: "map layerNum ?layers =
      filter (\<lambda>k. sliceAtZ (tri # tris) (planeHeight (vz (bb_min bbox)) (layerHeight s) k) \<noteq> [])
        [0..<nat \<lceil>vz (bb_size bbox) / layerHeight s\<rceil>]"
    by (simp add: sliceLoop_layerNums numLayers_def)
  have "length ?layers = length (map layerNum ?layers)" by simp
  also have "\<dots> \<le> length [0..<?n]"
    unfolding sliceLoop_layerNums by (rule length_filter_le)
  finally have "length ?layers \<le> ?n" by simp
  moreover have "0 \<le> vz (bb_size bbox) / layerHeight s"
    using getBoundingBox_bounds[OF assms(1) bb] assms(2)
    by (auto simp: triangleVertices_def)
  ultimately have "int (length ?layers) \<le> \<lceil>vz (bb_size bbox) / layerHeight s\<rceil>"
    by (simp add: numLayers_def) linarith
  with bb sm nums show ?thesis by blast
qed

theorem sliceMesh_layer_count_witness:
  "mesh tetraSlicer = Some (hd tetra # tl tetra) \<and> 0 < layerHeight tetraSlicer
   \<and> (\<exists>bbox layers. getBoundingBox tetraSlicer = Some bbox
         \<and> sliceMesh tetraSlicer = Inr (Some layers)
         \<and> map layerNum layers =
             filter (\<lambda>k. sliceAtZ (hd tetra # tl tetra)
                            (planeHeight (vz (bb_min bbox)) (layerHeight tetraSlicer) k) \<noteq> [])
               [0..<nat \<lceil>vz (bb_size bbox) / layerHeight tetraSlicer\<rceil>]
         \<and> int (length layers) \<le> \<lceil>vz (bb_size bbox) / layerHeight tetraSlicer\<rceil>)"
proof -
  have h1: "mesh tetraSlicer = Some (hd tetra # tl tetra)"
    by (simp add: tetraSlicer_def tetra_def)
  have h2: "0 < layerHeight tetraSlicer"
    by (simp add: tetraSlicer_def)
  from sliceMesh_layer_count[OF h1 h2] h1 h2 show ?thesis by blast
qed

lemma tetra_sliceMesh_loop:
  "sliceMesh tetraSlicer =
     Inr (Some (sliceLoop tetra (vz (bb_min tetraBox)) (layerHeight tetraSlicer) [0, 1, 2, 3]))"
proof -
  have m: "mesh tetraSlicer = Some tetra" and lh: "layerHeight tetraSlicer = 3 / 10"
    by (simp_all add: tetraSlicer_def)
  have "sliceMesh tetraSlicer =
      Inr (Some (sliceLoop tetra (vz (bb_min tetraBox)) (layerHeight tetraSlicer)
                   [0..<nat (numLayers tetraBox (layerHeight tetraSlicer))]))"
    by (rule sliceMesh_nonempty[OF m tetra_bbox]) (simp add: lh)
  also have "nat (numLayers tetraBox (layerHeight tetraSlicer)) = 4"
    by (simp add: lh tetra_numLayers)
  finally show ?thesis
    by (simp only: upt_4)
qed

lemma sliceAtZ_above:
  assumes "mesh s = Some m" "getBoundingBox s = Some bbox" "vz (bb_max bbox) < z"
  shows "sliceAtZ m z = []"
proof (rule ccontr)
  assume "sliceAtZ m z \<noteq> []"
  from sliceAtZ_between[OF this] getBoundingBox_bounds(1)[OF assms(1) assms(2)]
  have "z \<le> vz (bb_max bbox)" by fastforce
  with assms(3) show False by simp
qed

text \<open>
  C3, as stated: every height \<^verbatim>\<open>sliceMesh\<close> slices at is at most \<open>max.z\<close>. It fails
  on the tetrahedron: \<open>numLayers\<close> is 4, the loop runs for the layer numbers 0 to 3, and
  the plane of layer number 3 is at 1.2 while the mesh ends at 1.
\<close>

theorem sliceMesh_heights_counterexample:
  "mesh tetraSlicer = Some tetra \<and> tetra \<noteq> [] \<and> 0 < layerHeight tetraSlicer
   \<and> getBoundingBox tetraSlicer = Some tetraBox
   \<and> numLayers tetraBox (layerHeight tetraSlicer) = 4
   \<and> sliceMesh tetraSlicer =
       Inr (Some (sliceLoop tetra (vz (bb_min tetraBox)) (layerHeight tetraSlicer) [0, 1, 2, 3]))
   \<and> planeHeight (vz (bb_min tetraBox)) (layerHeight tetraSlicer) 3 = 6 / 5
   \<and> vz (bb_max tetraBox) < 6 / 5"
proof -
  have lh: "layerHeight tetraSlicer = 3 / 10" and m: "mesh tetraSlicer = Some tetra"
    by (simp_all add: tetraSlicer_def)
  have "planeHeight (vz (bb_min tetraBox)) (3 / 10) 3 = 6 / 5"
    by (simp add: planeHeight_def tetraBox_def)
  moreover have "tetra \<noteq> []" "vz (bb_max tetraBox) < 6 / 5"
    by (simp_all add: tetra_def tetraBox_def)
  moreover note tetra_sliceMesh_loop tetra_numLayers
  ultimately show ?thesis
    by (simp add: lh m tetra_bbox)
qed

text \<open>
  C3, amended: every layer \<^verbatim>\<open>sliceMesh\<close> returns lies at the plane height of its own
  layer number, and that height is between \<open>min.z + layerHeight\<close> and \<open>max.z\<close>; a plane
  above \<open>max.z\<close>, such as the last one tried can be, yields no segment and so no layer.
\<close>

theorem sliceMesh_layer_heights:
  assumes "mesh s = Some (tri # tris)" and "0 < layerHeight s"
    and "getBoundingBox s = Some bbox" and "sliceMesh s = Inr (Some layers)"
  shows "(\<forall>l\<in>set layers.
            layer_z l = planeHeight (vz (bb_min bbox)) (layerHeight s) (layerNum l)
            \<and> vz (bb_min bbox) + layerHeight s \<le> layer_z l
            \<and> layer_z l \<le> vz (bb_max bbox))
       \<and> (\<forall>z. vz (bb_max bbox) < z \<longrightarrow> sliceAtZ (tri # tris) z = [])"
proof (intro conjI ballI allI impI)
  let ?lh = "layerHeight s" and ?minz = "vz (bb_min bbox)"
  let ?n = "nat (numLayers bbox ?lh)"
  have low: "?minz + ?lh \<le> planeHeight ?minz ?lh k" for k
    using assms(2) by (simp add: planeHeight_def algebra_simps)
  {
    fix l assume "l \<in> set layers"
    with assms have "l \<in> set (sliceLoop (tri # tris) ?minz ?lh [0..<?n])"
      using sliceMesh_nonempty[OF assms(1) assms(3)] by simp
    from sliceLoop_member[OF this] have
      k: "layer_z l = planeHeight ?minz ?lh (layerNum l)" "sliceAtZ (tri # tris) (layer_z l) \<noteq> []"
      by auto
    from sliceAtZ_between[OF k(2)] getBoundingBox_bounds(1)[OF assms(1) assms(3)]
    have "layer_z l \<le> vz (bb_max bbox)" by fastforce
    with k(1) low[of "layerNum l"]
    show "layer_z l = planeHeight ?minz ?lh (layerNum l)"
      "?minz + ?lh \<le> layer_z l" "layer_z l \<le> vz (bb_max bbox)" by simp_all
  }
  {
    fix z assume "vz (bb_max bbox) < z"
    then show "sliceAtZ (tri # tris) z = []"
      by (rule sliceAtZ_above[OF assms(1) assms(3)])
  }
qed

theorem sliceMesh_layer_heights_witness:
  "mesh tetraSlicer = Some (hd tetra # tl tetra) \<and> 0 < layerHeight tetraSlicer
   \<and> getBoundingBox tetraSlicer = Some tetraBox \<and> sliceMesh tetraSlicer = Inr (Some tetraLayers)
   \<and> last tetraLayers \<in> set tetraLayers
   \<and> layer_z (last tetraLayers) =
       planeHeight (vz (bb_min tetraBox)) (layerHeight tetraSlicer) (layerNum (last tetraLayers))
   \<and> vz (bb_min tetraBox) + layerHeight tetraSlicer \<le> layer_z (last tetraLayers)
   \<and> layer_z (last tetraLayers) \<le> vz (bb_max tetraBox)
   \<and> vz (bb_max tetraBox) < 6 / 5
   \<and> sliceAtZ (hd tetra # tl tetra) (6 / 5) = []"
proof -
  have h1: "mesh tetraSlicer = Some (hd tetra # tl tetra)"
    by (simp add: tetraSlicer_def tetra_def)
  have h2: "0 < layerHeight tetraSlicer"
    by (simp add: tetraSlicer_def)
  have m1: "last tetraLayers \<in> set tetraLayers"
    by (simp add: tetraLayers_def)
  have m2: "vz (bb_max tetraBox) < 6 / 5"
    by (simp add: tetraBox_def)
  from sliceMesh_layer_heights[OF h1 h2 tetra_bbox tetra_sliceMesh] m1 m2
  have "layer_z (last tetraLayers) =
       planeHeight (vz (bb_min tetraBox)) (layerHeight tetraSlicer) (layerNum (last tetraLayers))
      \<and> vz (bb_min tetraBox) + layerHeight tetraSlicer \<le> layer_z (last tetraLayers)
      \<and> layer_z (last tetraLayers) \<le> vz (bb_max tetraBox)
      \<and> sliceAtZ (hd tetra # tl tetra) (6 / 5) = []"
    by blast
  with h1 h2 m1 m2 tetra_bbox tetra_sliceMesh show ?thesis by blast
qed

section \<open>Mesh ingestion\<close>

lemma readVertex_cases:
  "(\<exists>v. readVertex f32 buffer off = Inr v \<and> off + 12 \<le> length buffer)
   \<or> (readVertex f32 buffer off = Inl RangeError \<and> length buffer < off + 12)"
  by (auto simp: readVertex_def getFloat32_def)

lemma readTriangle_cases:
  "(\<exists>t. readTriangle f32 buffer i = Inr t \<and> 50 * i + 132 \<le> length buffer)
   \<or> (readTriangle f32 buffer i = Inl RangeError \<and> length buffer < 50 * i + 132)"
  using readVertex_cases[of f32 buffer "84 + i * 50 + 12"]
    readVertex_cases[of f32 buffer "84 + i * 50 + 24"]
    readVertex_cases[of f32 buffer "84 + i * 50 + 36"]
  by (auto simp: readTriangle_def Let_def)

lemma readTriangles_Inl:
  "readTriangles f32 buffer is acc = Inl e \<longleftrightarrow>
     e = RangeError \<and> (\<exists>i\<in>set is. length buffer < 50 * i + 132)"
proof (induction "is" arbitrary: acc e)
  case Nil
  then show ?case by simp
next
  case (Cons i "is")
  from readTriangle_cases[of f32 buffer i] show ?case
    by (auto simp: Cons.IH)
qed

lemma readTriangles_Inr:
  "readTriangles f32 buffer is acc = Inr tris \<Longrightarrow> length tris = length acc + length is"
  by (induction "is" arbitrary: acc) (auto split: sum.splits)

lemma upt_too_short:
  "(\<exists>i\<in>set [0..<n]. length buffer < 50 * i + 132) \<longleftrightarrow> 0 < n \<and> length buffer < 50 * n + 82"
proof
  assume "\<exists>i\<in>set [0..<n]. length buffer < 50 * i + 132"
  then obtain i where "i < n" "length buffer < 50 * i + 132" by auto
  then show "0 < n \<and> length buffer < 50 * n + 82" by auto
next
  assume a: "0 < n \<and> length buffer < 50 * n + 82"
  then have "n - 1 \<in> set [0..<n]" "length buffer < 50 * (n - 1) + 132" by auto
  then show "\<exists>i\<in>set [0..<n]. length buffer < 50 * i + 132" by blast
qed

lemma parseBinarySTL_short:
  "length buffer < 84 \<Longrightarrow> parseBinarySTL f32 buffer = Inl RangeError"
  by (simp add: parseBinarySTL_def getUint32_def)

lemma parseBinarySTL_Inl:
  assumes "getUint32 buffer 80 = Inr n"
  shows "parseBinarySTL f32 buffer = Inl e \<longleftrightarrow> e = RangeError \<and> 0 < n \<and> length buffer < 50 * n + 82"
  using assms upt_too_short[of n buffer] by (simp add: parseBinarySTL_def readTriangles_Inl)

lemma parseBinarySTL_Inr:
  assumes "getUint32 buffer 80 = Inr n" "parseBinarySTL f32 buffer = Inr tris"
  shows "length tris = n"
  using assms readTriangles_Inr[of f32 buffer "[0..<n]" "[]" tris] by (simp add: parseBinarySTL_def)

lemma asciiLine_Some:
  "currentTriangle st \<noteq> None \<Longrightarrow> \<exists>st'. asciiLine pf l st = Inr st' \<and> currentTriangle st' \<noteq> None"
  by (auto simp: asciiLine_def Let_def split: option.splits prod.splits)

lemma asciiLoop_Some:
  "currentTriangle st \<noteq> None \<Longrightarrow> \<exists>st'. asciiLoop pf ls st = Inr st'"
proof (induction ls arbitrary: st)
  case Nil then show ?case by simp
next
  case (Cons l ls)
  from asciiLine_Some[OF Cons.prems, of pf l] obtain st' where
    "asciiLine pf l st = Inr st'" "currentTriangle st' \<noteq> None" by blast
  with Cons.IH[of st'] show ?case by simp
qed

lemma not_both: "startsWith s ''facet'' \<Longrightarrow> \<not> startsWith s ''vertex''"
  by (auto simp: startsWith_def) (cases s; simp)

lemma asciiLoop_None:
  assumes "currentTriangle st = None" "vertexCount st = 0"
  shows "asciiLoop pf ls st = Inl e \<longleftrightarrow>
     e = TypeError \<and> vertexBeforeFacet ls"
  using assms unfolding vertexBeforeFacet_def
proof (induction ls arbitrary: st)
  case Nil then show ?case by simp
next
  case (Cons l ls)
  show ?case
  proof (cases "startsWith (trim l) ''facet''")
    case True
    then have "asciiLine pf l st = Inr (st\<lparr> currentTriangle := Some \<lparr> f1 = None, f2 = None, f3 = None \<rparr>, vertexCount := 0 \<rparr>)"
      by (simp add: asciiLine_def)
    moreover from asciiLoop_Some[of "st\<lparr> currentTriangle := Some \<lparr> f1 = None, f2 = None, f3 = None \<rparr>, vertexCount := 0 \<rparr>" pf ls]
    obtain st' where "asciiLoop pf ls (st\<lparr> currentTriangle := Some \<lparr> f1 = None, f2 = None, f3 = None \<rparr>, vertexCount := 0 \<rparr>) = Inr st'" by auto
    ultimately show ?thesis using True not_both[OF True] by simp
  next
    case nf: False
    show ?thesis
    proof (cases "startsWith (trim l) ''vertex''")
      case True
      with nf Cons.prems have "asciiLine pf l st = Inl TypeError"
        by (simp add: asciiLine_def Let_def)
      with nf True show ?thesis by auto
    next
      case False
      with nf Cons.prems have "asciiLine pf l st = Inr st"
        by (simp add: asciiLine_def Let_def)
      with nf False Cons.IH[OF Cons.prems] show ?thesis by simp
    qed
  qed
qed


lemma binaryExtra_parse: "parseBinarySTL f32 binaryExtra = Inr []"
  by (simp add: parseBinarySTL_def getUint32_def binaryExtra_def nth_append)

lemma asciiTwoVertices_lines:
  "splitLines asciiTwoVertices =
     [''solid s'', ''facet normal 0 0 1'', ''outer loop'', ''vertex 0 0 0'', ''vertex 1 0 0'',
      ''endloop'', ''endfacet'', ''endsolid s'']"
  by (simp add: asciiTwoVertices_def)

lemma asciiTwoVertices_parse: "parseASCIISTL pf asciiTwoVertices = Inr []"
  by (simp add: parseASCIISTL_def asciiTwoVertices_lines asciiLine_def trim_def isSpace_def
      startsWith_def Let_def splitSpaces_def part_def)

text \<open>
  C7, as stated: ingestion fails whenever the binary count does not match the buffer
  length and whenever a text record has other than three vertices. It fails on a binary
  buffer of 134 bytes that declares no triangle, and on a text file whose record has two
  vertices: both are parsed, and give the empty mesh.
\<close>

theorem ingestion_failures_counterexample:
  "getUint32 binaryExtra 80 = Inr 0 \<and> length binaryExtra = 134
   \<and> parseBinarySTL (\<lambda>_. 0) binaryExtra = Inr []
   \<and> asciiText asciiTwoVertices
   \<and> parseASCIISTL (\<lambda>_. 0) asciiTwoVertices = Inr []"
proof -
  have "getUint32 binaryExtra 80 = Inr 0" "length binaryExtra = 134"
    by (simp_all add: getUint32_def binaryExtra_def nth_append)
  moreover have "asciiText asciiTwoVertices"
    by (simp add: asciiText_def asciiTwoVertices_def)
  ultimately show ?thesis
    by (simp add: binaryExtra_parse asciiTwoVertices_parse)
qed

text \<open>
  C7, amended: \<^verbatim>\<open>parseBinarySTL\<close> throws (a \<^verbatim>\<open>RangeError\<close>) exactly when the buffer
  is shorter than 84 bytes or, for a declared count \<open>n > 0\<close>, shorter than \<open>50 n + 82\<close>
  bytes; any other buffer, also one longer than the count needs, gives \<open>n\<close> triangles.
  On a text of ASCII bytes \<^verbatim>\<open>parseASCIISTL\<close> never rejects a record: it throws (a
  \<^verbatim>\<open>TypeError\<close>) exactly when a \<^verbatim>\<open>vertex\<close> line comes before every \<^verbatim>\<open>facet\<close>
  line, and returns a mesh otherwise.
\<close>

theorem ingestion_failures:
  "(if length buffer < 84 then parseBinarySTL f32 buffer = Inl RangeError
    else \<exists>n. getUint32 buffer 80 = Inr n \<and>
           (if 0 < n \<and> length buffer < 50 * n + 82 then parseBinarySTL f32 buffer = Inl RangeError
            else \<exists>tris. parseBinarySTL f32 buffer = Inr tris \<and> length tris = n))
   \<and> (asciiText text \<longrightarrow>
        (if vertexBeforeFacet (splitLines text) then parseASCIISTL pf text = Inl TypeError
         else \<exists>tris. parseASCIISTL pf text = Inr tris))"
proof (intro conjI impI)
  show "if length buffer < 84 then parseBinarySTL f32 buffer = Inl RangeError
    else \<exists>n. getUint32 buffer 80 = Inr n \<and>
           (if 0 < n \<and> length buffer < 50 * n + 82 then parseBinarySTL f32 buffer = Inl RangeError
            else \<exists>tris. parseBinarySTL f32 buffer = Inr tris \<and> length tris = n)"
  proof (cases "length buffer < 84")
    case True
    then show ?thesis by (simp add: parseBinarySTL_short)
  next
    case False
    then obtain n where n: "getUint32 buffer 80 = Inr n"
      by (auto simp: getUint32_def)
    show ?thesis
    proof (cases "0 < n \<and> length buffer < 50 * n + 82")
      case True
      with parseBinarySTL_Inl[OF n, of f32 RangeError] n False show ?thesis by auto
    next
      case short: False
      obtain r where r: "parseBinarySTL f32 buffer = r" by simp
      show ?thesis
      proof (cases r)
        case (Inl e)
        with r parseBinarySTL_Inl[OF n, of f32 e] short show ?thesis by simp
      next
        case (Inr tris)
        with r parseBinarySTL_Inr[OF n, of f32 tris] n False short show ?thesis by auto
      qed
    qed
  qed
next
  let ?st = "\<lparr> triangles = [], currentTriangle = None, vertexCount = 0 \<rparr>"
  have c: "asciiLoop pf (splitLines text) ?st = Inl e \<longleftrightarrow>
      e = TypeError \<and> vertexBeforeFacet (splitLines text)" for e
    by (rule asciiLoop_None) simp_all
  show "if vertexBeforeFacet (splitLines text) then parseASCIISTL pf text = Inl TypeError
      else \<exists>tris. parseASCIISTL pf text = Inr tris"
  proof (cases "asciiLoop pf (splitLines text) ?st")
    case (Inl e)
    with c[of e] show ?thesis by (simp add: parseASCIISTL_def)
  next
    case (Inr st)
    with c[of TypeError] show ?thesis by (auto simp: parseASCIISTL_def)
  qed
qed

theorem ingestion_failures_witness:
  "\<not> length binarySolid < 84 \<and> getUint32 binarySolid 80 = Inr 1
   \<and> \<not> (0 < (1::nat) \<and> length binarySolid < 50 * 1 + 82)
   \<and> (\<exists>tris. parseBinarySTL (\<lambda>_. 0) binarySolid = Inr tris \<and> length tris = 1)
   \<and> asciiText asciiTwoVertices
   \<and> \<not> vertexBeforeFacet (splitLines asciiTwoVertices)
   \<and> (\<exists>tris. parseASCIISTL (\<lambda>_. 0) asciiTwoVertices = Inr tris)"
proof -
  have len: "length binarySolid = 134"
    by (simp add: binarySolid_def)
  have cnt: "getUint32 binarySolid 80 = Inr 1"
    by (simp add: getUint32_def binarySolid_def)
  have nv: "\<not> vertexBeforeFacet (splitLines asciiTwoVertices)"
    by (simp add: vertexBeforeFacet_def asciiTwoVertices_lines trim_def isSpace_def startsWith_def)
  have asc: "asciiText asciiTwoVertices"
    by (simp add: asciiText_def asciiTwoVertices_def)
  from ingestion_failures[of binarySolid "\<lambda>_. 0" asciiTwoVertices "\<lambda>_. 0"] len cnt nv asc
  show ?thesis by simp
qed

section \<open>Format detection\<close>

lemma includesStr_iff:
  "includesStr h p \<longleftrightarrow> (\<exists>k\<le>length h. take (length p) (drop k h) = p)"
proof (induction h)
  case Nil
  then show ?case by auto
next
  case (Cons c cs)
  have "(\<exists>k\<le>length (c # cs). take (length p) (drop k (c # cs)) = p)
      \<longleftrightarrow> take (length p) (c # cs) = p \<or> (\<exists>k\<le>length cs. take (length p) (drop k cs) = p)"
    (is "?L \<longleftrightarrow> ?A \<or> ?B")
  proof
    assume ?L
    then obtain k where k: "k \<le> length (c # cs)" "take (length p) (drop k (c # cs)) = p" by blast
    show "?A \<or> ?B"
    proof (cases k)
      case 0
      with k show ?thesis by simp
    next
      case (Suc k')
      with k have "k' \<le> length cs" "take (length p) (drop k' cs) = p" by simp_all
      then show ?thesis by blast
    qed
  next
    assume "?A \<or> ?B"
    then show ?L
    proof
      assume ?A
      then have "take (length p) (drop 0 (c # cs)) = p" by simp
      then show ?L by blast
    next
      assume ?B
      then obtain k where "k \<le> length cs" "take (length p) (drop k cs) = p" by blast
      then have "Suc k \<le> length (c # cs)" "take (length p) (drop (Suc k) (c # cs)) = p" by simp_all
      then show ?L by blast
    qed
  qed
  with Cons.IH show ?case by (simp add: startsWith_def)
qed

lemma header_solid_iff:
  assumes "80 \<le> length buffer"
  shows "includesStr (toLowerCase (take 80 buffer)) ''solid''
     \<longleftrightarrow> (\<exists>k\<le>75. toLowerCase (take 5 (drop k buffer)) = ''solid'')"
proof -
  have len: "length (toLowerCase (take 80 buffer)) = 80"
    using assms by (simp add: toLowerCase_def)
  have eq: "take 5 (drop k (toLowerCase (take 80 buffer))) = toLowerCase (take 5 (drop k buffer))"
    if "k \<le> 75" for k
    using that by (simp add: toLowerCase_def drop_map take_map drop_take min_def)
  have l5: "length ''solid'' = 5" by simp
  have inc: "includesStr (toLowerCase (take 80 buffer)) ''solid''
      \<longleftrightarrow> (\<exists>k\<le>80. take 5 (drop k (toLowerCase (take 80 buffer))) = ''solid'')"
    by (simp only: includesStr_iff len l5)
  show ?thesis
  proof
    assume "includesStr (toLowerCase (take 80 buffer)) ''solid''"
    with inc obtain k where k: "k \<le> 80" "take 5 (drop k (toLowerCase (take 80 buffer))) = ''solid''"
      by blast
    have "length (take 5 (drop k (toLowerCase (take 80 buffer)))) = 5"
      by (simp only: k(2) l5)
    with len have "k \<le> 75" by simp
    with k(2) eq show "\<exists>k\<le>75. toLowerCase (take 5 (drop k buffer)) = ''solid''" by auto
  next
    assume "\<exists>k\<le>75. toLowerCase (take 5 (drop k buffer)) = ''solid''"
    then obtain k where k: "k \<le> 75" "toLowerCase (take 5 (drop k buffer)) = ''solid''" by blast
    with eq have "k \<le> 80" "take 5 (drop k (toLowerCase (take 80 buffer))) = ''solid''"
      by simp_all
    with inc show "includesStr (toLowerCase (take 80 buffer)) ''solid''"
      by blast
  qed
qed

lemma bs_len: "length binarySolid = 134" by (simp add: binarySolid_def)

lemma bs_not_start: "\<not> startsWith (take 80 binarySolid) ''solid''"
  by (simp add: binarySolid_def startsWith_def)

lemma bs_lower: "toLowerCase (take 5 (drop 7 binarySolid)) = ''solid''"
  by (simp add: binarySolid_def toLowerCase_def toLowerChar_def)

lemma bs_ascii: "parseASCIISTL (\<lambda>_. 0) binarySolid = Inr []"
  by (simp add: binarySolid_def parseASCIISTL_def asciiLine_def trim_def isSpace_def startsWith_def)

lemma bs_binary: "parseBinarySTL (\<lambda>_. 0) binarySolid = Inr [\<lparr> v1 = zeroVertex, v2 = zeroVertex, v3 = zeroVertex \<rparr>]"
proof -
  have cnt: "getUint32 binarySolid 80 = Inr 1"
    by (simp add: getUint32_def binarySolid_def)
  have tri: "readTriangle (\<lambda>_. 0) binarySolid 0 = Inr \<lparr> v1 = zeroVertex, v2 = zeroVertex, v3 = zeroVertex \<rparr>"
    by (simp add: readTriangle_def readVertex_def getFloat32_def bs_len zeroVertex_def)
  show ?thesis
    by (simp add: parseBinarySTL_def cnt tri)
qed


text \<open>
  C8, as stated: a file whose header does not begin with \<^verbatim>\<open>solid\<close> is parsed as
  binary. It fails on a binary file whose header is \<^verbatim>\<open>binary solid\<close>: the word appears
  later in the header, the text parser is chosen, and the triangle is lost.
\<close>

theorem parseSTL_sniffing_counterexample:
  "80 \<le> length binarySolid \<and> \<not> startsWith (take 80 binarySolid) ''solid''
   \<and> parseSTL (\<lambda>_. 0) (\<lambda>_. 0) binarySolid = Inr []
   \<and> parseASCIISTL (\<lambda>_. 0) binarySolid = Inr []
   \<and> parseBinarySTL (\<lambda>_. 0) binarySolid = Inr [\<lparr> v1 = zeroVertex, v2 = zeroVertex, v3 = zeroVertex \<rparr>]"
proof -
  have "includesStr (toLowerCase (take 80 binarySolid)) ''solid''"
    using header_solid_iff[of binarySolid] bs_lower bs_len by auto
  then have "parseSTL (\<lambda>_. 0) (\<lambda>_. 0) binarySolid = Inr []"
    by (simp add: parseSTL_def bs_len bs_ascii)
  with bs_len bs_not_start bs_ascii bs_binary show ?thesis by simp
qed

text \<open>
  C8, amended: on a buffer of at least 80 bytes \<^verbatim>\<open>parseSTL\<close> selects the text parser
  exactly when \<^verbatim>\<open>solid\<close>, in any mix of upper and lower case, appears anywhere within
  the first 80 bytes, and the binary parser otherwise; a shorter buffer throws.
\<close>

theorem parseSTL_sniffing:
  "if length buffer < 80 then parseSTL f32 pf buffer = Inl RangeError
   else if (\<exists>k\<le>75. toLowerCase (take 5 (drop k buffer)) = ''solid'')
        then parseSTL f32 pf buffer = parseASCIISTL pf buffer
        else parseSTL f32 pf buffer = parseBinarySTL f32 buffer"
proof (cases "length buffer < 80")
  case True
  then show ?thesis by (simp add: parseSTL_def)
next
  case False
  then have "80 \<le> length buffer" by simp
  note iff = header_solid_iff[OF this]
  have eq: "parseSTL f32 pf buffer =
      (if includesStr (toLowerCase (take 80 buffer)) ''solid'' then parseASCIISTL pf buffer
       else parseBinarySTL f32 buffer)"
    using False by (simp add: parseSTL_def)
  show ?thesis
  proof (cases "\<exists>k\<le>75. toLowerCase (take 5 (drop k buffer)) = ''solid''")
    case True
    with iff have "includesStr (toLowerCase (take 80 buffer)) ''solid''" by blast
    with eq have "parseSTL f32 pf buffer = parseASCIISTL pf buffer" by (simp only: if_True)
    then show ?thesis unfolding if_not_P[OF False] if_P[OF True] .
  next
    case nex: False
    with iff have "\<not> includesStr (toLowerCase (take 80 buffer)) ''solid''" by blast
    with eq have "parseSTL f32 pf buffer = parseBinarySTL f32 buffer" by (simp only: if_False)
    then show ?thesis unfolding if_not_P[OF False] if_not_P[OF nex] .
  qed
qed

theorem parseSTL_sniffing_witness:
  "\<not> length binarySolid < 80 \<and> toLowerCase (take 5 (drop 7 binarySolid)) = ''solid''
   \<and> parseSTL (\<lambda>_. 0) (\<lambda>_. 0) binarySolid = parseASCIISTL (\<lambda>_. 0) binarySolid"
proof -
  have "\<exists>k\<le>75. toLowerCase (take 5 (drop k binarySolid)) = ''solid''"
    using bs_lower by (intro exI[of _ 7]) simp
  with parseSTL_sniffing[of binarySolid "\<lambda>_. 0" "\<lambda>_. 0"] bs_len bs_lower show ?thesis
    by simp
qed

section \<open>Perimeter tracing\<close>

lemma findConnection_length:
  "findConnection p us = Some (q, us') \<Longrightarrow> Suc (length us') = length us"
  by (induction us arbitrary: us') (auto simp: Let_def split: if_splits option.splits)

lemma connectLoop_total:
  "\<exists>path' us'. connectLoop path p us = Some (path', us') \<and> length us' \<le> length us"
proof (induction "length us" arbitrary: path p us rule: less_induct)
  case less
  show ?case
  proof (cases "us = []")
    case True
    then show ?thesis by (simp add: connectLoop.simps)
  next
    case False
    show ?thesis
    proof (cases "findConnection p us")
      case None
      with False show ?thesis by (simp add: connectLoop.simps)
    next
      case (Some r)
      obtain q rest where r: "r = (q, rest)" by (cases r)
      from Some r have len: "Suc (length rest) = length us"
        by (simp add: findConnection_length)
      then have "length rest < length us" by simp
      from less[OF this, of "path @ [q]" q] obtain path' us' where
        "connectLoop (path @ [q]) q rest = Some (path', us')" "length us' \<le> length rest" by blast
      moreover have "connectLoop path p us = connectLoop (path @ [q]) q rest"
        using False Some r by (subst connectLoop.simps) simp
      ultimately show ?thesis using len by auto
    qed
  qed
qed

lemma traceLoop_total: "\<exists>res. traceLoop paths us = Some res"
proof (induction "length us" arbitrary: paths us rule: less_induct)
  case less
  show ?case
  proof (cases us)
    case Nil
    then show ?thesis by (simp add: traceLoop.simps)
  next
    case (Cons firstSeg rest)
    from connectLoop_total[of "[seg_start firstSeg, seg_end firstSeg]" "seg_end firstSeg" rest]
    obtain path' rest' where
      c: "connectLoop [seg_start firstSeg, seg_end firstSeg] (seg_end firstSeg) rest = Some (path', rest')"
      and l: "length rest' \<le> length rest" by blast
    from l Cons have "length rest' < length us" by simp
    from less[OF this, of "if length path' \<ge> 3 then paths @ [path'] else paths"]
    obtain res where "traceLoop (if length path' \<ge> 3 then paths @ [path'] else paths) rest' = Some res"
      by blast
    moreover have "traceLoop paths us = traceLoop (if length path' \<ge> 3 then paths @ [path'] else paths) rest'"
      using Cons c by (subst traceLoop.simps) simp
    ultimately show ?thesis by simp
  qed
qed

lemma segmentsToPerimeter_total: "\<exists>paths. segmentsToPerimeter segs = Some paths"
  using traceLoop_total[of "[]" segs] by (simp add: segmentsToPerimeter_def)

lemma hypot_less_iff: "0 < t \<Longrightarrow> hypot a b < t \<longleftrightarrow> a * a + b * b < t * t"
proof -
  assume t: "0 < t"
  have "hypot a b < t \<longleftrightarrow> sqrt (a * a + b * b) < sqrt (t * t)"
    using t by (simp add: hypot_def)
  also have "\<dots> \<longleftrightarrow> a * a + b * b < t * t"
    by (rule real_sqrt_less_iff)
  finally show ?thesis .
qed

lemma findConnection_Cons:
  "findConnection lastPoint (seg # rest) =
     (if near lastPoint (seg_start seg) then Some (seg_end seg, rest)
      else if near lastPoint (seg_end seg) then Some (seg_start seg, rest)
      else (case findConnection lastPoint rest of
              None \<Rightarrow> None
            | Some (p, rest') \<Rightarrow> Some (p, seg # rest')))"
proof -
  have "hypot a b < 0.01 \<longleftrightarrow> a * a + b * b < 1 / 10000" for a b
    using hypot_less_iff[of "0.01" a b] by simp
  then show ?thesis
    by (simp only: findConnection.simps Let_def near_def)
qed

lemmas trace_eval = segmentsToPerimeter_def traceLoop.simps connectLoop.simps findConnection_Cons
  findConnection.simps(1) near_def

text \<open>
  C10. \<^verbatim>\<open>segmentsToPerimeter\<close> returns for every list of segments. A connection found
  takes exactly one segment out of the pool, so the inner loop runs again only on a smaller
  pool; it returns with a pool no larger than it got, and the outer loop has taken one
  segment out before it starts the inner one.
\<close>

theorem segmentsToPerimeter_terminates:
  "(\<exists>paths. segmentsToPerimeter segs = Some paths)
   \<and> (case findConnection p us of None \<Rightarrow> True | Some (q, us') \<Rightarrow> Suc (length us') = length us)
   \<and> (\<exists>path' us'. connectLoop path p us = Some (path', us') \<and> length us' \<le> length us)
   \<and> (\<exists>res. traceLoop paths0 us = Some res)"
  using segmentsToPerimeter_total[of segs] connectLoop_total[of path p us] traceLoop_total[of paths0 us]
    findConnection_length[of p us]
  by (auto split: option.splits)

theorem segmentsToPerimeter_terminates_witness:
  "\<exists>paths. segmentsToPerimeter squareLoop = Some paths"
  using segmentsToPerimeter_terminates[of squareLoop] by blast

section \<open>Extrusion counter\<close>

lemma evalues_append [simp]: "evalues (xs @ ys) = evalues xs @ evalues ys"
  by (simp add: evalues_def)

lemma evalues_Cons: "evalues (l # ls) = evalue l @ evalues ls"
  by (simp add: evalues_def)

lemma evalues_Nil [simp]: "evalues [] = []"
  by (simp add: evalues_def)

lemma advances_Nil [simp]: "advances c [] c"
  by (simp add: advances_def)

lemma advances_append:
  assumes "advances c xs c1" "advances c1 ys c2"
  shows "advances c (xs @ ys) c2"
  using assms unfolding advances_def
  by (auto simp: sorted_append list_all_iff) (meson order_trans)

lemma advances_quiet:
  assumes "evalues xs = []" "advances c ys c'"
  shows "advances c (xs @ ys) c'" "advances c (ys @ xs) c'"
  using assms unfolding advances_def by auto

lemma advances_Note: "advances c ls c' \<Longrightarrow> advances c (Note t # ls) c'"
  unfolding advances_def by (simp add: evalues_Cons)

lemma startsAt_append:
  assumes "startsAt c xs" "advances c xs c1" "startsAt c1 ys"
  shows "startsAt c (xs @ ys)"
  using assms unfolding startsAt_def advances_def
  by (cases "evalues xs") auto

lemma drawPoints_advances:
  "drawPoints ps c = (ls, c') \<Longrightarrow> advances c ls c' \<and> (ps \<noteq> [] \<longrightarrow> c < c')"
proof (induction ps arbitrary: c ls c')
  case Nil
  then show ?case by simp
next
  case (Cons p ps)
  obtain ls1 c1 where r: "drawPoints ps (c + 3) = (ls1, c1)" by (cases "drawPoints ps (c + 3)")
  with Cons.prems have ls: "ls = Extrude (px p) (py p) (c + 3) # ls1" "c' = c1" by simp_all
  from Cons.IH[OF r] have "advances (c + 3) ls1 c1" by simp
  then show ?case unfolding advances_def ls
    by (auto simp: evalues_Cons list_all_iff)
qed

lemma drawPath_advances:
  assumes "drawPath k path c = Inr (ls, c')"
  shows "advances c ls c'" "path \<noteq> [] \<Longrightarrow> evalues ls \<noteq> [] \<and> startsAt c ls"
proof -
  show "advances c ls c'"
  proof (cases path)
    case Nil
    with assms show ?thesis by (simp add: drawPath_def split: if_splits)
  next
    case (Cons p ps)
    obtain ls1 c1 where r: "drawPoints ps (c + 1) = (ls1, c1)" by (cases "drawPoints ps (c + 1)")
    from drawPoints_advances[OF r] have a: "advances (c + 1) ls1 c1" by simp
    from assms Cons r have "ls = (if k > 0 then [Travel (px p) (py p)] else []) @ Extrude (px p) (py p) c # ls1"
      "c' = c1" by (simp_all add: drawPath_def)
    with a show ?thesis unfolding advances_def
      by (auto simp: evalues_Cons list_all_iff)
  qed
  show "evalues ls \<noteq> [] \<and> startsAt c ls" if "path \<noteq> []"
  proof -
    from that obtain p ps where Cons: "path = p # ps" by (cases path) auto
    obtain ls1 c1 where r: "drawPoints ps (c + 1) = (ls1, c1)" by (cases "drawPoints ps (c + 1)")
    from assms Cons r have "ls = (if k > 0 then [Travel (px p) (py p)] else []) @ Extrude (px p) (py p) c # ls1"
      by (simp_all add: drawPath_def)
    then show ?thesis by (auto simp: startsAt_def evalues_Cons)
  qed
qed

lemma bindE_Inr:
  "bindE m f = Inr y \<longleftrightarrow> (\<exists>x. m = Inr x \<and> f x = Inr y)"
  by (cases m) (simp_all add: bindE_def)

lemma drawPaths_advances:
  "drawPaths k paths c = Inr (ls, c') \<Longrightarrow>
     advances c ls c' \<and> (paths \<noteq> [] \<and> hd paths \<noteq> [] \<longrightarrow> evalues ls \<noteq> [] \<and> startsAt c ls)"
proof (induction paths arbitrary: k c ls c')
  case Nil
  then show ?case by simp
next
  case (Cons path paths)
  from Cons.prems obtain ls1 c1 ls2 where
    1: "drawPath k path c = Inr (ls1, c1)" and 2: "drawPaths (k + 1) paths c1 = Inr (ls2, c')"
    and ls: "ls = ls1 @ ls2"
    by (auto simp: bindE_Inr)
  from Cons.IH[OF 2] have a2: "advances c1 ls2 c'" by simp
  from drawPath_advances(1)[OF 1] a2 have "advances c (ls1 @ ls2) c'"
    by (rule advances_append)
  moreover have "evalues ls \<noteq> [] \<and> startsAt c ls" if "path \<noteq> []"
    using drawPath_advances(2)[OF 1 that] ls by (auto simp: startsAt_def split: list.splits)
  ultimately show ?case using ls by simp
qed

lemma renumber_advances: "renumber ls c = (ls', c') \<Longrightarrow> advances c ls' c'"
proof (induction ls arbitrary: c ls' c')
  case Nil
  then show ?case by simp
next
  case (Cons l ls)
  show ?case
  proof (cases "\<exists>x y e. l = Extrude x y e")
    case True
    then obtain x y e where l: "l = Extrude x y e" by blast
    obtain ls1 c1 where r: "renumber ls (c + 3) = (ls1, c1)" by (cases "renumber ls (c + 3)")
    from Cons.IH[OF r] have "advances (c + 3) ls1 c1" .
    moreover from Cons.prems r l have "ls' = Extrude x y (c + 3) # ls1" "c' = c1" by simp_all
    ultimately show ?thesis unfolding advances_def by (auto simp: evalues_Cons list_all_iff)
  next
    case False
    obtain ls1 c1 where r: "renumber ls c = (ls1, c1)" by (cases "renumber ls c")
    from False have e: "evalue l = []" by (cases l) simp_all
    from False Cons.prems r have "ls' = l # ls1" "c' = c1" by (cases l; simp)+
    with Cons.IH[OF r] e show ?thesis unfolding advances_def by (simp add: evalues_Cons)
  qed
qed

lemma fillWith_advances:
  "fillWith s bbox pat d paths angle c = Inr (ls, c') \<Longrightarrow> advances c ls c'"
  by (auto simp: fillWith_def bindE_Inr dest: renumber_advances)

lemma solidInfill_advances:
  assumes "solidInfill s bbox paths c = Inr (ls, c')" shows "advances c ls c'"
proof -
  from assms obtain ls1 c1 ls2 where
    1: "fillWith s bbox ''lines'' 100 paths 0 c = Inr (ls1, c1)"
    and 2: "fillWith s bbox ''lines'' 100 paths 90 c1 = Inr (ls2, c')"
    and ls: "ls = Note ''; Solid layer'' # ls1 @ ls2"
    by (auto simp: solidInfill_def bindE_Inr)
  from advances_append[OF fillWith_advances[OF 1] fillWith_advances[OF 2]] ls
  show ?thesis by (simp add: advances_Note)
qed

lemma sparseInfill_advances:
  assumes "sparseInfill s pat d bbox paths c = Inr (ls, c')" shows "advances c ls c'"
proof (cases "d > 0")
  case False
  with assms show ?thesis by (simp add: sparseInfill_def)
next
  case True
  show ?thesis
  proof (cases "pat = ''grid''")
    case g: True
    with True assms obtain ls1 c1 ls2 where
      1: "fillWith s bbox ''lines'' d paths 0 c = Inr (ls1, c1)"
      and 2: "fillWith s bbox ''lines'' d paths 90 c1 = Inr (ls2, c')"
      and ls: "ls = Note ''; Sparse infill'' # ls1 @ ls2"
      by (auto simp: sparseInfill_def bindE_Inr)
    from advances_append[OF fillWith_advances[OF 1] fillWith_advances[OF 2]] ls
    show ?thesis by (simp add: advances_Note)
  next
    case g: False
    with True assms obtain ls1 where
      1: "fillWith s bbox pat d paths 0 c = Inr (ls1, c')"
      and ls: "ls = Note ''; Sparse infill'' # ls1"
      by (auto simp: sparseInfill_def bindE_Inr)
    from fillWith_advances[OF 1] ls show ?thesis by (simp add: advances_Note)
  qed
qed

lemma sparseInfillSeq_advances:
  assumes "sparseInfillSeq s pat d bbox paths c = Inr (ls, c')" shows "advances c ls c'"
proof (cases "d > 0")
  case False
  with assms show ?thesis by (simp add: sparseInfillSeq_def)
next
  case True
  with assms obtain ls1 where
    1: "fillWith s bbox pat d paths 0 c = Inr (ls1, c')"
    and ls: "ls = Note ''; Sparse infill'' # ls1"
    by (auto simp: sparseInfillSeq_def bindE_Inr)
  from fillWith_advances[OF 1] ls show ?thesis by (simp add: advances_Note)
qed

lemma connectLoop_length:
  "connectLoop path p us = Some (path', us') \<Longrightarrow> length path \<le> length path'"
proof (induction "length us" arbitrary: path p us rule: less_induct)
  case less
  show ?case
  proof (cases "us = []")
    case True
    with less.prems show ?thesis by (simp add: connectLoop.simps)
  next
    case False
    show ?thesis
    proof (cases "findConnection p us")
      case None
      with False less.prems show ?thesis by (simp add: connectLoop.simps)
    next
      case (Some r)
      obtain q rest where r: "r = (q, rest)" by (cases r)
      from Some r have "length rest < length us"
        using findConnection_length[of p us q rest] by simp
      moreover have "connectLoop (path @ [q]) q rest = Some (path', us')"
        using False Some r less.prems by (subst (asm) connectLoop.simps) simp
      ultimately have "length (path @ [q]) \<le> length path'"
        by (rule less.hyps)
      then show ?thesis by simp
    qed
  qed
qed

lemma traceLoop_paths:
  "traceLoop paths us = Some res \<Longrightarrow> \<forall>p\<in>set paths. 3 \<le> length p \<Longrightarrow> \<forall>p\<in>set res. 3 \<le> length p"
proof (induction "length us" arbitrary: paths us rule: less_induct)
  case less
  show ?case
  proof (cases us)
    case Nil
    with less.prems show ?thesis by (simp add: traceLoop.simps)
  next
    case (Cons firstSeg rest)
    from connectLoop_total[of "[seg_start firstSeg, seg_end firstSeg]" "seg_end firstSeg" rest]
    obtain path' rest' where
      c: "connectLoop [seg_start firstSeg, seg_end firstSeg] (seg_end firstSeg) rest = Some (path', rest')"
      and l: "length rest' \<le> length rest" by blast
    let ?paths = "if length path' \<ge> 3 then paths @ [path'] else paths"
    from l Cons have lt: "length rest' < length us" by simp
    have t: "traceLoop ?paths rest' = Some res"
      using Cons c less.prems(1) by (subst (asm) traceLoop.simps) simp
    have "\<forall>p\<in>set ?paths. 3 \<le> length p"
      using less.prems(2) by auto
    from less.hyps[OF lt t this] show ?thesis .
  qed
qed

lemma segmentsToPerimeter_paths:
  "segmentsToPerimeter segs = Some paths \<Longrightarrow> \<forall>p\<in>set paths. 3 \<le> length p"
  using traceLoop_paths[of "[]" segs paths]
  by (auto simp: segmentsToPerimeter_def split: if_splits)

lemma emitLayer_advances:
  assumes r: "emitLayer s sparse trailer seqs layers i c = Inr (ls, c')"
    and sp: "\<And>bbox paths c ls c'. sparse bbox paths c = Inr (ls, c') \<Longrightarrow> advances c ls c'"
    and tr: "evalues trailer = []"
  shows "advances c ls c' \<and> startsAt c ls"
proof -
  let ?head = "[Note ''; Layer'', MoveZ (layer_z (layers ! i))]"
  have hd0: "evalues ?head = []" by (simp add: evalues_def)
  from r obtain paths where p: "segmentsToPerimeter (segments (layers ! i)) = Some paths"
    by (auto simp: emitLayer_def Let_def split: option.splits)
  show ?thesis
  proof (cases "length paths > 0")
    case False
    with r p have "ls = ?head @ trailer" and c: "c' = c"
      by (simp_all add: emitLayer_def Let_def)
    with tr have "evalues ls = []" by (simp add: evalues_Cons)
    with c show ?thesis by (simp add: advances_def startsAt_def)
  next
    case True
    with segmentsToPerimeter_paths[OF p] have ne: "paths \<noteq> []" "hd paths \<noteq> []"
      by (cases paths; fastforce)+
    from r p True have lt: "i < length seqs"
      by (auto simp: emitLayer_def Let_def split: if_splits)
    from r p True lt obtain perimeter c1 infill where
      d: "drawPaths 0 paths c = Inr (perimeter, c1)"
      and f: "(if isBottom (seqs ! i) \<or> isTop (seqs ! i)
               then solidInfill s (getLayerBoundingBox (concat paths)) paths c1
               else sparse (getLayerBoundingBox (concat paths)) paths c1) = Inr (infill, c')"
      and ls: "ls = ?head @ perimeter @ infill @ trailer"
      by (auto simp: emitLayer_def Let_def bindE_Inr)
    from drawPaths_advances[OF d] ne have a1: "advances c perimeter c1"
      and s1: "evalues perimeter \<noteq> []" "startsAt c perimeter" by simp_all
    from f have a2: "advances c1 infill c'"
      by (auto split: if_splits intro: sp solidInfill_advances)
    from advances_append[OF a1 a2] have a: "advances c (perimeter @ infill) c'" .
    have el: "evalues ls = evalues perimeter @ evalues infill"
      unfolding ls using tr by (simp add: evalues_Cons)
    have "advances c ls c'"
      using a unfolding advances_def el by simp
    moreover have "startsAt c ls"
      using s1 unfolding el startsAt_def by (cases "evalues perimeter") simp_all
    ultimately show ?thesis ..
  qed
qed

lemma emitLayers_advances:
  assumes "emitLayers body is c = Inr (ls, c')"
    and "\<And>i c ls c'. body i c = Inr (ls, c') \<Longrightarrow> advances c ls c' \<and> startsAt c ls"
  shows "advances c ls c' \<and> startsAt c ls"
  using assms(1)
proof (induction "is" arbitrary: c ls c')
  case Nil
  then show ?case by (simp add: startsAt_def)
next
  case (Cons i "is")
  from Cons.prems obtain ls1 c1 ls2 where
    1: "body i c = Inr (ls1, c1)" and 2: "emitLayers body is c1 = Inr (ls2, c')"
    and ls: "ls = ls1 @ ls2"
    by (auto simp: bindE_Inr)
  from assms(2)[OF 1] Cons.IH[OF 2] show ?case
    unfolding ls by (auto intro: advances_append startsAt_append)
qed

lemma program_evalues:
  assumes "advances 0 body c" "startsAt 0 body" "evalues h = []" "evalues f = []"
  shows "sorted (evalues (h @ body @ f)) \<and> (evalues (h @ body @ f) \<noteq> [] \<longrightarrow> hd (evalues (h @ body @ f)) = 0)"
  using assms unfolding advances_def startsAt_def by (auto split: list.splits)

lemma generateGCode_evalues:
  assumes "generateGCode s layers pat d = Inr prog"
  shows "sorted (evalues prog) \<and> (evalues prog \<noteq> [] \<longrightarrow> hd (evalues prog) = 0)"
proof -
  let ?body = "emitLayer s (sparseInfill s pat d) [Note []] (analyzeLayerSequences s layers) layers"
  from assms obtain body c foot where
    e: "emitLayers ?body [0..<length layers] 0 = Inr (body, c)"
    and f: "footer layers = Inr foot" and p: "prog = header s @ body @ foot"
    by (auto simp: generateGCode_def Let_def bindE_Inr)
  have "advances 0 body c \<and> startsAt 0 body"
    by (rule emitLayers_advances[OF e], rule emitLayer_advances)
      (auto intro: sparseInfill_advances simp: evalues_def)
  moreover have "evalues (header s) = []" by (simp add: header_def evalues_def)
  moreover from f have "evalues foot = []" by (auto simp: footer_def evalues_def split: if_splits)
  ultimately show ?thesis unfolding p using program_evalues by blast
qed

lemma generateGCodeWithSequences_evalues:
  assumes "generateGCodeWithSequences s layers pat d seqs = Inr prog"
  shows "sorted (evalues prog) \<and> (evalues prog \<noteq> [] \<longrightarrow> hd (evalues prog) = 0)"
proof -
  let ?body = "emitLayer s (sparseInfillSeq s pat d) [] seqs layers"
  from assms obtain body c foot where
    e: "emitLayers ?body [0..<length layers] 0 = Inr (body, c)"
    and f: "footerSeq layers = Inr foot" and p: "prog = headerSeq s @ body @ foot"
    by (auto simp: generateGCodeWithSequences_def Let_def bindE_Inr)
  have "advances 0 body c \<and> startsAt 0 body"
    by (rule emitLayers_advances[OF e], rule emitLayer_advances)
      (auto intro: sparseInfillSeq_advances simp: evalues_def)
  moreover have "evalues (headerSeq s) = []" by (simp add: headerSeq_def evalues_def)
  moreover from f have "evalues foot = []" by (auto simp: footerSeq_def evalues_def split: if_splits)
  ultimately show ?thesis unfolding p using program_evalues by blast
qed

section \<open>The generators on the square layer\<close>

lemma square_perimeter: "segmentsToPerimeter squareLoop = Some [squarePath]"
  by (simp add: squareLoop_def squarePath_def trace_eval del: findConnection.simps)

lemma square_box: "getLayerBoundingBox (concat [squarePath]) = Some squareBox"
  by (simp add: getLayerBoundingBox_def squarePath_def squareBox_def scanPoint_def)

lemma square_inside:
  "0 < a \<Longrightarrow> a < 20 \<Longrightarrow> 0 < b \<Longrightarrow> b < 20 \<Longrightarrow> isPointInSolidGeometry \<lparr>px = a, py = b\<rparr> [squarePath]"
  by (simp add: isPointInSolidGeometry_def isPointInPolygon_def squarePath_def rayCrosses_def
      rotate_def eval_nat_numeral divide_simps)

lemma square_row:
  "0 < y \<Longrightarrow> y < 20 \<Longrightarrow> scanRow (Some [squarePath]) y i =
     (if i mod 2 = 0 then [Travel 0 y, Extrude 20 y 0] else [Travel 20 y, Extrude 0 y 0])"
  by (simp add: scanRow_def findLinePolygonIntersections_def lineCrossing_def squarePath_def
      Let_def square_inside[unfolded squarePath_def])

lemma square_column:
  "0 < x \<Longrightarrow> x < 20 \<Longrightarrow> scanColumn (Some [squarePath]) x i =
     (if i mod 2 = 0 then [Travel x 0, Extrude x 20 0] else [Travel x 20, Extrude x 0 0])"
  by (simp add: scanColumn_def findVerticalLinePolygonIntersections_def verticalLineCrossing_def
      squarePath_def Let_def square_inside[unfolded squarePath_def])

lemma plain_spacing: "infillSpacing plainSlicer 20 = 82 / 5"
  by (simp add: infillSpacing_def)

lemma upt_3: "[0..<3] = [0, 1, 2]"
  by (simp add: upt_rec)

lemma square_rows:
  "generateLayerInfill plainSlicer (Some squareBox) pat 20 (Some [squarePath]) 0 =
     Inr [Travel 0 (1 / 5), Extrude 20 (1 / 5) 0, Travel 20 (83 / 5), Extrude 0 (83 / 5) 0]"
proof -
  have n: "nat (\<lceil>((20 - 1 / 5) - (0 + 1 / 5)) / (82 / 5) :: real\<rceil> + 1) = 3"
    by (simp add: ceiling_eq_iff)
  show ?thesis
    unfolding generateLayerInfill_def plain_spacing
    by (simp add: Let_def squareBox_def n upt_3 square_row)
qed

lemma square_columns:
  "generateLayerInfill plainSlicer (Some squareBox) pat 20 (Some [squarePath]) 90 =
     Inr [Travel (1 / 5) 0, Extrude (1 / 5) 20 0, Travel (83 / 5) 20, Extrude (83 / 5) 0 0]"
proof -
  have n: "nat (\<lceil>((20 - 1 / 5) - (0 + 1 / 5)) / (82 / 5) :: real\<rceil> + 1) = 3"
    by (simp add: ceiling_eq_iff)
  show ?thesis
    unfolding generateLayerInfill_def plain_spacing
    by (simp add: Let_def squareBox_def n upt_3 square_column)
qed

lemma plain_sequences:
  "analyzeLayerSequences plainSlicer squareLayers = [\<lparr> isBottom = False, isTop = False \<rparr>]"
  by (simp add: analyzeLayerSequences_def squareLayers_def detectHorizontalSurfaces_def plainSlicer_def
      topMarks_def geometryDecreases_def Let_def)

lemma square_draw: "drawPaths 0 [squarePath] 0 = Inr (squarePerimeter, 13)"
  by (simp add: drawPath_def squarePath_def squarePerimeter_def bindE_def)

lemma grid_generateGCode: "generateGCode plainSlicer squareLayers ''grid'' 20 = Inr gridProgram"
proof -
  have l: "squareLayers ! 0 = \<lparr> layerNum = 0, layer_z = 1 / 5, segments = squareLoop \<rparr>"
    "length squareLayers = 1" "squareLayers \<noteq> []"
    "last squareLayers = \<lparr> layerNum = 0, layer_z = 1 / 5, segments = squareLoop \<rparr>"
    by (simp_all add: squareLayers_def)
  have sp: "sparseInfill plainSlicer ''grid'' 20 (Some squareBox) [squarePath] 13 =
      Inr ([Note ''; Sparse infill'', Travel 0 (1 / 5), Extrude 20 (1 / 5) 16, Travel 20 (83 / 5), Extrude 0 (83 / 5) 19,
        Travel (1 / 5) 0, Extrude (1 / 5) 20 22, Travel (83 / 5) 20, Extrude (83 / 5) 0 25], 25)"
    by (simp add: sparseInfill_def fillWith_def square_rows square_columns bindE_def)
  have e: "emitLayer plainSlicer (sparseInfill plainSlicer ''grid'' 20) [Note []]
             [\<lparr> isBottom = False, isTop = False \<rparr>] squareLayers 0 0 =
           Inr ([Note ''; Layer'', MoveZ (1 / 5)] @ squarePerimeter
                @ [Note ''; Sparse infill'', Travel 0 (1 / 5), Extrude 20 (1 / 5) 16, Travel 20 (83 / 5), Extrude 0 (83 / 5) 19,
                   Travel (1 / 5) 0, Extrude (1 / 5) 20 22, Travel (83 / 5) 20, Extrude (83 / 5) 0 25] @ [Note []], 25)"
    unfolding emitLayer_def l
    by (simp add: square_perimeter square_draw square_box[simplified] sp bindE_def del: drawPaths.simps)
  show ?thesis
    unfolding generateGCode_def plain_sequences l
    by (simp add: e bindE_def footer_def l gridProgram_def)
qed

lemma lines_generateGCodeWithSequences:
  "generateGCodeWithSequences plainSlicer squareLayers ''grid'' 20 [\<lparr> isBottom = False, isTop = False \<rparr>] = Inr linesProgram"
proof -
  have l: "squareLayers ! 0 = \<lparr> layerNum = 0, layer_z = 1 / 5, segments = squareLoop \<rparr>"
    "length squareLayers = 1" "squareLayers \<noteq> []"
    "last squareLayers = \<lparr> layerNum = 0, layer_z = 1 / 5, segments = squareLoop \<rparr>"
    by (simp_all add: squareLayers_def)
  have sp: "sparseInfillSeq plainSlicer ''grid'' 20 (Some squareBox) [squarePath] 13 =
      Inr ([Note ''; Sparse infill'', Travel 0 (1 / 5), Extrude 20 (1 / 5) 16, Travel 20 (83 / 5), Extrude 0 (83 / 5) 19], 19)"
    by (simp add: sparseInfillSeq_def fillWith_def square_rows bindE_def)
  have e: "emitLayer plainSlicer (sparseInfillSeq plainSlicer ''grid'' 20) []
             [\<lparr> isBottom = False, isTop = False \<rparr>] squareLayers 0 0 =
           Inr ([Note ''; Layer'', MoveZ (1 / 5)] @ squarePerimeter
                @ [Note ''; Sparse infill'', Travel 0 (1 / 5), Extrude 20 (1 / 5) 16, Travel 20 (83 / 5), Extrude 0 (83 / 5) 19], 19)"
    unfolding emitLayer_def l
    by (simp add: square_perimeter square_draw square_box[simplified] sp bindE_def del: drawPaths.simps)
  show ?thesis
    unfolding generateGCodeWithSequences_def l
    by (simp add: e bindE_def footerSeq_def l linesProgram_def)
qed

text \<open>
  C4. The \<open>E\<close> values of a program that either generator returns are in non-decreasing
  order, and the first one, if there is any, is 0: the counter starts from zero in every
  generation.
\<close>

theorem extrusion_monotone:
  "(generateGCode s layers infillPattern infillDensity = Inr prog \<longrightarrow>
      sorted (evalues prog) \<and> (evalues prog \<noteq> [] \<longrightarrow> hd (evalues prog) = 0))
   \<and> (generateGCodeWithSequences s layers infillPattern infillDensity sequences = Inr prog' \<longrightarrow>
        sorted (evalues prog') \<and> (evalues prog' \<noteq> [] \<longrightarrow> hd (evalues prog') = 0))"
  using generateGCode_evalues generateGCodeWithSequences_evalues by blast

theorem extrusion_monotone_witness:
  "generateGCode plainSlicer squareLayers ''grid'' 20 = Inr gridProgram
   \<and> evalues gridProgram = [0, 4, 7, 10, 13, 16, 19, 22, 25]
   \<and> sorted (evalues gridProgram) \<and> evalues gridProgram \<noteq> [] \<and> hd (evalues gridProgram) = 0
   \<and> generateGCodeWithSequences plainSlicer squareLayers ''grid'' 20
        [\<lparr> isBottom = False, isTop = False \<rparr>] = Inr linesProgram
   \<and> evalues linesProgram = [0, 4, 7, 10, 13, 16, 19]
   \<and> sorted (evalues linesProgram) \<and> evalues linesProgram \<noteq> [] \<and> hd (evalues linesProgram) = 0"
proof -
  have g: "evalues gridProgram = [0, 4, 7, 10, 13, 16, 19, 22, 25]"
    by (simp add: gridProgram_def header_def squarePerimeter_def evalues_def)
  have l: "evalues linesProgram = [0, 4, 7, 10, 13, 16, 19]"
    by (simp add: linesProgram_def headerSeq_def squarePerimeter_def evalues_def)
  have g0: "evalues gridProgram \<noteq> []" and l0: "evalues linesProgram \<noteq> []"
    by (simp_all add: g l)
  from extrusion_monotone[of plainSlicer squareLayers "''grid''" 20 gridProgram
      "[\<lparr> isBottom = False, isTop = False \<rparr>]" linesProgram]
    grid_generateGCode lines_generateGCodeWithSequences g0 l0
  have "sorted (evalues gridProgram) \<and> hd (evalues gridProgram) = 0
      \<and> sorted (evalues linesProgram) \<and> hd (evalues linesProgram) = 0"
    by blast
  with grid_generateGCode lines_generateGCodeWithSequences g l g0 l0 show ?thesis
    by blast
qed

text \<open>
  C6, on its failing input: for the square layer, which is neither top nor bottom, and the
  grid pattern at 20 percent, \<^verbatim>\<open>generateGCode\<close> fills along both axes (two rows, then
  two columns) while \<^verbatim>\<open>generateGCodeWithSequences\<close> fills the two rows only.
\<close>

theorem grid_infill_on_both_paths:
  "generateGCode plainSlicer squareLayers ''grid'' 20 = Inr gridProgram
   \<and> fills gridProgram =
       [(\<lparr>px = 0, py = 1 / 5\<rparr>, \<lparr>px = 20, py = 1 / 5\<rparr>), (\<lparr>px = 20, py = 83 / 5\<rparr>, \<lparr>px = 0, py = 83 / 5\<rparr>),
        (\<lparr>px = 1 / 5, py = 0\<rparr>, \<lparr>px = 1 / 5, py = 20\<rparr>), (\<lparr>px = 83 / 5, py = 20\<rparr>, \<lparr>px = 83 / 5, py = 0\<rparr>)]
   \<and> generateGCodeWithSequences plainSlicer squareLayers ''grid'' 20
        [\<lparr> isBottom = False, isTop = False \<rparr>] = Inr linesProgram
   \<and> fills linesProgram =
       [(\<lparr>px = 0, py = 1 / 5\<rparr>, \<lparr>px = 20, py = 1 / 5\<rparr>), (\<lparr>px = 20, py = 83 / 5\<rparr>, \<lparr>px = 0, py = 83 / 5\<rparr>)]"
  by (simp add: grid_generateGCode lines_generateGCodeWithSequences)
    (simp add: gridProgram_def linesProgram_def header_def headerSeq_def squarePerimeter_def)

section \<open>Infill and holes\<close>

lemma solid_iff_odd:
  "isPointInSolidGeometry p paths \<longleftrightarrow> odd (length (filter (isPointInPolygon p) paths))"
proof -
  have "fold (\<lambda>path count. if isPointInPolygon p path then count + 1 else count) paths n
      = n + length (filter (isPointInPolygon p) paths)" for n :: nat
    by (induction paths arbitrary: n) simp_all
  then show ?thesis
    by (simp add: isPointInSolidGeometry_def odd_iff_mod_2_eq_one)
qed

lemma fills_fillRow:
  "fills (fillRow y i ps xs @ rest) = fills (fillRow y i ps xs) @ fills rest"
proof (induction y i ps xs rule: fillRow.induct)
  case (1 y i paths startX endX r)
  have IH: "fills (fillRow y i paths r @ rest) = fills (fillRow y i paths r) @ fills rest"
    by (rule "1.IH"[OF refl refl])
  show ?case by (simp add: Let_def IH)
qed simp_all

lemma fills_fillColumn:
  "fills (fillColumn x i ps ys @ rest) = fills (fillColumn x i ps ys) @ fills rest"
proof (induction x i ps ys rule: fillColumn.induct)
  case (1 x i paths startY endY r)
  have IH: "fills (fillColumn x i paths r @ rest) = fills (fillColumn x i paths r) @ fills rest"
    by (rule "1.IH"[OF refl refl])
  show ?case by (simp add: Let_def IH)
qed simp_all

lemma fillRow_solid:
  "seg \<in> set (fills (fillRow y i ps xs)) \<Longrightarrow> isPointInSolidGeometry (midpoint seg) ps"
proof (induction y i ps xs rule: fillRow.induct)
  case (1 y i paths startX endX r)
  have IH: "seg \<in> set (fills (fillRow y i paths r)) \<Longrightarrow> isPointInSolidGeometry (midpoint seg) paths"
    by (rule "1.IH"[OF refl refl])
  from "1.prems" IH show ?case
    by (auto simp: Let_def midpoint_def add.commute split: if_splits)
qed simp_all

lemma fillColumn_solid:
  "seg \<in> set (fills (fillColumn x i ps ys)) \<Longrightarrow> isPointInSolidGeometry (midpoint seg) ps"
proof (induction x i ps ys rule: fillColumn.induct)
  case (1 x i paths startY endY r)
  have IH: "seg \<in> set (fills (fillColumn x i paths r)) \<Longrightarrow> isPointInSolidGeometry (midpoint seg) paths"
    by (rule "1.IH"[OF refl refl])
  from "1.prems" IH show ?case
    by (auto simp: Let_def midpoint_def add.commute split: if_splits)
qed simp_all

lemma scanLoop_solid:
  assumes "\<And>c i rest. fills (body c i @ rest) = fills (body c i) @ fills rest"
    and "\<And>c i seg. seg \<in> set (fills (body c i)) \<Longrightarrow> P seg"
    and "seg \<in> set (fills (scanLoop coord limit body is))"
  shows "P seg"
  using assms(3)
proof (induction "is")
  case Nil
  then show ?case by simp
next
  case (Cons i "is")
  then show ?case
    by (auto simp: assms(1) split: if_splits dest: assms(2))
qed

lemma generateLayerInfill_solid:
  assumes "generateLayerInfill s bbox pat d (Some paths) angle = Inr lines"
    and "seg \<in> set (fills lines)"
  shows "isPointInSolidGeometry (midpoint seg) paths"
proof -
  have row: "fills (scanRow (Some paths) c i @ rest) = fills (scanRow (Some paths) c i) @ fills rest"
    "seg \<in> set (fills (scanRow (Some paths) c i)) \<Longrightarrow> isPointInSolidGeometry (midpoint seg) paths"
    for c i rest seg
    by (simp_all add: scanRow_def fills_fillRow fillRow_solid)
  have col: "fills (scanColumn (Some paths) c i @ rest) = fills (scanColumn (Some paths) c i) @ fills rest"
    "seg \<in> set (fills (scanColumn (Some paths) c i)) \<Longrightarrow> isPointInSolidGeometry (midpoint seg) paths"
    for c i rest seg
    by (simp_all add: scanColumn_def fills_fillColumn fillColumn_solid)
  from assms show ?thesis
    by (auto simp: generateLayerInfill_def Let_def split: option.splits if_splits
        intro: scanLoop_solid[where body = "scanRow (Some paths)", OF row]
               scanLoop_solid[where body = "scanColumn (Some paths)", OF col])
qed

lemma hole_inside_outer:
  "0 < a \<Longrightarrow> a < 5 \<or> 15 < a \<Longrightarrow> a < 20 \<Longrightarrow> 5 < b \<Longrightarrow> b < 15 \<Longrightarrow>
     isPointInSolidGeometry \<lparr>px = a, py = b\<rparr> [squarePath, innerPath]"
  by (auto simp: isPointInSolidGeometry_def isPointInPolygon_def squarePath_def innerPath_def rayCrosses_def
      rotate_def eval_nat_numeral divide_simps)

lemma hole_row:
  "5 < y \<Longrightarrow> y < 15 \<Longrightarrow> scanRow (Some [squarePath, innerPath]) y i =
     (if i mod 2 = 0 then [Travel 0 y, Extrude 5 y 0, Travel 15 y, Extrude 20 y 0]
      else [Travel 5 y, Extrude 0 y 0, Travel 20 y, Extrude 15 y 0])"
  by (simp add: scanRow_def findLinePolygonIntersections_def lineCrossing_def squarePath_def innerPath_def
      Let_def hole_inside_outer[unfolded squarePath_def innerPath_def])

lemma ring_rows:
  "generateLayerInfill plainSlicer (Some squareBox) pat 50 (Some [squarePath, innerPath]) 0 =
     Inr [Travel 0 (1 / 5), Extrude 20 (1 / 5) 0,
          Travel 5 (56 / 5), Extrude 0 (56 / 5) 0, Travel 20 (56 / 5), Extrude 15 (56 / 5) 0]"
proof -
  have sp: "infillSpacing plainSlicer 50 = 11"
    by (simp add: infillSpacing_def)
  have n: "nat (\<lceil>((20 - 1 / 5) - (0 + 1 / 5)) / 11 :: real\<rceil> + 1) = 3"
    by (simp add: ceiling_eq_iff)
  have bottom: "scanRow (Some [squarePath, innerPath]) (1 / 5) 0 = [Travel 0 (1 / 5), Extrude 20 (1 / 5) 0]"
    by (simp add: scanRow_def findLinePolygonIntersections_def lineCrossing_def squarePath_def
        innerPath_def Let_def isPointInSolidGeometry_def isPointInPolygon_def rayCrosses_def
        rotate_def eval_nat_numeral)
  show ?thesis
    unfolding generateLayerInfill_def sp
    by (simp add: Let_def squareBox_def n upt_3 hole_row bottom)
qed

text \<open>
  C5. With the two concentric squares, a horizontal scan line through the common centre
  (height 10) gives the left band from 0 to 5 and the right band from 15 to 20, in the
  direction of its parity, and nothing over the inner square. In general every fill
  segment of an infill has its middle inside an odd number of the paths supplied.
\<close>

theorem hole_exclusion:
  "scanRow (Some [squarePath, innerPath]) 10 i =
     (if i mod 2 = 0 then [Travel 0 10, Extrude 5 10 0, Travel 15 10, Extrude 20 10 0]
      else [Travel 5 10, Extrude 0 10 0, Travel 20 10, Extrude 15 10 0])
   \<and> (generateLayerInfill s bbox pattern density (Some paths) angle = Inr lines \<longrightarrow>
        (\<forall>seg\<in>set (fills lines). odd (length (filter (isPointInPolygon (midpoint seg)) paths))))"
  using hole_row[of 10 i] generateLayerInfill_solid[of s bbox pattern density paths angle lines]
  by (simp add: solid_iff_odd)

theorem hole_exclusion_witness:
  "generateLayerInfill plainSlicer (Some squareBox) ''lines'' 50 (Some [squarePath, innerPath]) 0 =
     Inr [Travel 0 (1 / 5), Extrude 20 (1 / 5) 0,
          Travel 5 (56 / 5), Extrude 0 (56 / 5) 0, Travel 20 (56 / 5), Extrude 15 (56 / 5) 0]
   \<and> odd (length (filter (isPointInPolygon \<lparr>px = 5 / 2, py = 56 / 5\<rparr>) [squarePath, innerPath]))
   \<and> odd (length (filter (isPointInPolygon \<lparr>px = 35 / 2, py = 56 / 5\<rparr>) [squarePath, innerPath]))"
proof -
  let ?lines = "[Travel 0 (1 / 5), Extrude 20 (1 / 5) 0,
          Travel 5 (56 / 5), Extrude 0 (56 / 5) 0, Travel 20 (56 / 5), Extrude 15 (56 / 5) 0]"
  have r: "generateLayerInfill plainSlicer (Some squareBox) ''lines'' 50 (Some [squarePath, innerPath]) 0 = Inr ?lines"
    by (rule ring_rows)
  have m1: "(\<lparr>px = 5, py = 56 / 5\<rparr>, \<lparr>px = 0, py = 56 / 5\<rparr>) \<in> set (fills ?lines)"
    and m2: "(\<lparr>px = 20, py = 56 / 5\<rparr>, \<lparr>px = 15, py = 56 / 5\<rparr>) \<in> set (fills ?lines)"
    by simp_all
  from hole_exclusion[of 0 plainSlicer "Some squareBox" "''lines''" 50 "[squarePath, innerPath]" 0 ?lines] r
  have all: "\<forall>seg\<in>set (fills ?lines). odd (length (filter (isPointInPolygon (midpoint seg)) [squarePath, innerPath]))"
    by blast
  from bspec[OF all m1] bspec[OF all m2] r show ?thesis
    by (simp add: midpoint_def)
qed

section \<open>Layer classification\<close>

lemma setTop_nth:
  "length (setTop k sq) = length sq"
  "i < length sq \<Longrightarrow> isTop (setTop k sq ! i) = (i = k \<or> isTop (sq ! i))"
  "i < length sq \<Longrightarrow> isBottom (setTop k sq ! i) = isBottom (sq ! i)"
  by (simp add: setTop_def, (cases "i = k"; simp add: setTop_def)+)

lemma setBottom_nth:
  "length (setBottom k sq) = length sq"
  "i < length sq \<Longrightarrow> isBottom (setBottom k sq ! i) = (i = k \<or> isBottom (sq ! i))"
  "i < length sq \<Longrightarrow> isTop (setBottom k sq ! i) = isTop (sq ! i)"
  by (simp add: setBottom_def, (cases "i = k"; simp add: setBottom_def)+)

lemma fold_setTop:
  "length (fold setTop ks sq) = length sq"
  "i < length sq \<Longrightarrow> isTop (fold setTop ks sq ! i) = (i \<in> set ks \<or> isTop (sq ! i))"
  "i < length sq \<Longrightarrow> isBottom (fold setTop ks sq ! i) = isBottom (sq ! i)"
  by (induction ks arbitrary: sq; auto simp: setTop_nth)+

lemma fold_setBottom:
  "length (fold setBottom ks sq) = length sq"
  "i < length sq \<Longrightarrow> isBottom (fold setBottom ks sq ! i) = (i \<in> set ks \<or> isBottom (sq ! i))"
  "i < length sq \<Longrightarrow> isTop (fold setBottom ks sq ! i) = isTop (sq ! i)"
  by (induction ks arbitrary: sq; auto simp: setBottom_nth)+

lemma fold_if_filter:
  "fold (\<lambda>i sq. if P i then f i sq else sq) ks = fold f (filter P ks)"
  by (induction ks) (simp_all add: fun_eq_iff)

lemma fold_nested:
  "fold (\<lambda>i. fold f (g i)) ks sq = fold f (concat (map g ks)) sq"
  by (induction ks arbitrary: sq) simp_all

lemma analyze_unfold:
  assumes "layers \<noteq> []" "detectHorizontalSurfaces s = (topS, botS)"
  shows "analyzeLayerSequences s layers =
     fold setBottom
       (concat (map (\<lambda>bz. filter (\<lambda>i. nearBottom s bz (layer_z (layers ! i))) [0..<length layers]) botS))
       (fold setTop
          (concat (map (\<lambda>tz. filter (\<lambda>i. nearTop s tz (layer_z (layers ! i))) [0..<length layers]) topS))
          (fold setTop (concat (map (topMarks s layers) [0..<length layers]))
             (fold setBottom [0..<nat (min (topBottomLayers s) (int (length layers)))]
                (replicate (length layers) \<lparr> isBottom = False, isTop = False \<rparr>))))"
  using assms
  by (simp add: analyzeLayerSequences_def Let_def fold_if_filter fold_nested)

lemma analyze_length: "length (analyzeLayerSequences s layers) = length layers"
proof (cases "layers = []")
  case True
  then show ?thesis by (simp add: analyzeLayerSequences_def)
next
  case False
  obtain topS botS where d: "detectHorizontalSurfaces s = (topS, botS)"
    by (cases "detectHorizontalSurfaces s")
  show ?thesis
    unfolding analyze_unfold[OF False d] by (simp add: fold_setTop fold_setBottom)
qed

lemma analyze_flags:
  assumes "detectHorizontalSurfaces s = (topS, botS)" "i < length layers"
  shows "isBottom (analyzeLayerSequences s layers ! i) \<longleftrightarrow>
           int i < min (topBottomLayers s) (int (length layers))
           \<or> (\<exists>bz\<in>set botS. nearBottom s bz (layer_z (layers ! i)))"
    and "isTop (analyzeLayerSequences s layers ! i) \<longleftrightarrow>
           (\<exists>k<length layers. i \<in> set (topMarks s layers k))
           \<or> (\<exists>tz\<in>set topS. nearTop s tz (layer_z (layers ! i)))"
proof -
  from assms(2) have ne: "layers \<noteq> []" by auto
  note u = analyze_unfold[OF ne assms(1)]
  show "isBottom (analyzeLayerSequences s layers ! i) \<longleftrightarrow>
           int i < min (topBottomLayers s) (int (length layers))
           \<or> (\<exists>bz\<in>set botS. nearBottom s bz (layer_z (layers ! i)))"
    unfolding u using assms(2)
    by (auto simp: fold_setTop fold_setBottom)
  show "isTop (analyzeLayerSequences s layers ! i) \<longleftrightarrow>
           (\<exists>k<length layers. i \<in> set (topMarks s layers k))
           \<or> (\<exists>tz\<in>set topS. nearTop s tz (layer_z (layers ! i)))"
    unfolding u using assms(2)
    by (auto simp: fold_setTop fold_setBottom)
qed

section \<open>The cube\<close>

lemma cube_bbox: "getBoundingBox cubeSlicer = Some cubeBox"
  by (simp add: getBoundingBox_def cubeSlicer_def cube_def cubeBox_def triangleOf_def vertexAt_def
      triangleVertices_def scanVertex_def)

lemma cube_slice:
  assumes "0 < z" "z \<le> 20"
  shows "sliceAtZ cube z = cubeSegments z"
  using assms
  by (simp add: sliceAtZ_def cube_def triangleOf_def vertexAt_def triangleSegment_def triangleIntersections_def
      triangleEdges_def edgeIntersection_def cubeSegments_def segmentOf_def pointAt_def Let_def)
    (simp add: field_simps)

lemma cube_pathLength:
  assumes "0 \<le> z" "z \<le> 20"
  shows "pathLength (cubeSegments z) = 80"
  using assms
  by (simp add: pathLength_def segmentLength_def cubeSegments_def segmentOf_def pointAt_def Let_def)

lemma cube_numLayers: "numLayers cubeBox (1 / 5) = 100"
  by (simp add: numLayers_def cubeBox_def vertexAt_def)

lemma sqrt_160000: "sqrt 160000 = 400"
  by (rule real_sqrt_unique) simp_all

lemma cube_surfaces: "detectHorizontalSurfaces cubeSlicer = ([20], [0])"
  by (simp add: detectHorizontalSurfaces_def cubeSlicer_def cube_def triangleOf_def vertexAt_def
      surfaceStep_def Let_def sqrt_160000)

lemma sliceLoop_all:
  assumes "\<And>k. k \<in> set ks \<Longrightarrow> sliceAtZ m (planeHeight minz lh k) \<noteq> []"
  shows "sliceLoop m minz lh ks =
     map (\<lambda>k. \<lparr> layerNum = k, layer_z = planeHeight minz lh k,
                segments = sliceAtZ m (planeHeight minz lh k) \<rparr>) ks"
  using assms by (induction ks) (simp_all add: Let_def)

lemma cube_sliceMesh: "sliceMesh cubeSlicer = Inr (Some cubeLayers)"
proof -
  have m: "mesh cubeSlicer = Some cube" and lh: "layerHeight cubeSlicer = 1 / 5"
    and mz: "vz (bb_min cubeBox) = 0"
    by (simp_all add: cubeSlicer_def cubeBox_def vertexAt_def)
  have h: "0 < planeHeight 0 (1 / 5) k \<and> planeHeight 0 (1 / 5) k \<le> 20" if "k < 100" for k
    using that by (simp add: planeHeight_def)
  have "sliceMesh cubeSlicer =
      Inr (Some (sliceLoop cube (vz (bb_min cubeBox)) (layerHeight cubeSlicer)
                   [0..<nat (numLayers cubeBox (layerHeight cubeSlicer))]))"
    by (rule sliceMesh_nonempty[OF m cube_bbox]) (simp add: lh)
  also have "nat (numLayers cubeBox (layerHeight cubeSlicer)) = 100"
    by (simp add: lh cube_numLayers)
  finally have "sliceMesh cubeSlicer = Inr (Some (sliceLoop cube 0 (1 / 5) [0..<100]))"
    by (simp only: lh mz)
  also have "sliceLoop cube 0 (1 / 5) [0..<100] =
      map (\<lambda>k. \<lparr> layerNum = k, layer_z = planeHeight 0 (1 / 5) k,
                 segments = sliceAtZ cube (planeHeight 0 (1 / 5) k) \<rparr>) [0..<100]"
    by (rule sliceLoop_all) (use h in \<open>auto simp: cube_slice cubeSegments_def\<close>)
  also have "\<dots> = cubeLayers"
    unfolding cubeLayers_def
    by (rule map_cong) (use h in \<open>auto simp: cube_slice cubeLayer_def planeHeight_def\<close>)
  finally show ?thesis .
qed

lemma cubeLayers_nth:
  "k < 100 \<Longrightarrow> cubeLayers ! k = cubeLayer k" "length cubeLayers = 100"
  by (simp_all add: cubeLayers_def)

lemma cube_geometry: 
  assumes "k < 100"
  shows "\<not> geometryDecreases cubeSlicer cubeLayers k"
proof -
  have pl: "pathLength (segments (cubeLayers ! j)) = 80" "length (segments (cubeLayers ! j)) = 8"
    if "j < 100" for j
    using that by (simp_all add: cubeLayers_nth cubeLayer_def cube_pathLength)
      (simp add: cubeSegments_def)
  show ?thesis
    unfolding geometryDecreases_def Let_def list_ex_iff
    using assms by (auto simp: pl cubeLayers_nth(2))
qed

lemma cube_topMarks:
  assumes "k < 100"
  shows "topMarks cubeSlicer cubeLayers k = (if 97 \<le> k then [k] else [])"
  using assms cube_geometry[OF assms]
  by (auto simp: topMarks_def cubeLayers_nth(2) cubeSlicer_def)

lemma cube_flags:
  assumes "i < 100"
  shows "isBottom (analyzeLayerSequences cubeSlicer cubeLayers ! i) \<longleftrightarrow> i < 3"
    and "isTop (analyzeLayerSequences cubeSlicer cubeLayers ! i) \<longleftrightarrow> 96 \<le> i"
proof -
  have i: "i < length cubeLayers" using assms by (simp add: cubeLayers_nth)
  have z: "layer_z (cubeLayers ! i) = (real i + 1) / 5"
    using assms by (simp add: cubeLayers_nth cubeLayer_def)
  have nb: "nearBottom cubeSlicer 0 ((real i + 1) / 5) \<longleftrightarrow> i < 3"
    by (auto simp: nearBottom_def cubeSlicer_def Let_def)
  have nt: "nearTop cubeSlicer 20 ((real i + 1) / 5) \<longleftrightarrow> 96 \<le> i"
    using assms by (auto simp: nearTop_def cubeSlicer_def Let_def)
  have tbl: "topBottomLayers cubeSlicer = 3" by (simp add: cubeSlicer_def)
  show "isBottom (analyzeLayerSequences cubeSlicer cubeLayers ! i) \<longleftrightarrow> i < 3"
    unfolding analyze_flags(1)[OF cube_surfaces i] z
    by (auto simp: nb tbl cubeLayers_nth(2))
  have "(\<exists>k<length cubeLayers. i \<in> set (topMarks cubeSlicer cubeLayers k)) \<longleftrightarrow> 97 \<le> i"
    using assms by (auto simp: cubeLayers_nth(2) cube_topMarks)
  then show "isTop (analyzeLayerSequences cubeSlicer cubeLayers ! i) \<longleftrightarrow> 96 \<le> i"
    unfolding analyze_flags(2)[OF cube_surfaces i] z
    by (auto simp: nt)
qed

text \<open>
  C1, as stated: on the cube every layer between the first three and the last three has
  both flags false. It fails at index 96, the fourth layer from the top: it lies 0.6 below
  the top face, within the reach of the normal-surface rule, and is marked \<open>isTop\<close>.
\<close>

theorem cube_top_bottom_counterexample:
  "sliceMesh cubeSlicer = Inr (Some cubeLayers) \<and> length cubeLayers = 100
   \<and> length (analyzeLayerSequences cubeSlicer cubeLayers) = 100
   \<and> isTop (analyzeLayerSequences cubeSlicer cubeLayers ! 96)"
  using cube_flags(2)[of 96]
  by (simp add: cube_sliceMesh cubeLayers_nth(2) analyze_length)

text \<open>
  C1, amended: the cube gives 100 layers; exactly the indices 0 to 2 are \<open>isBottom\<close>; the
  last three indices, 97 to 99, and also index 96 are \<open>isTop\<close>; the layers 3 to 94 have
  both flags false. Nothing is said of \<open>isTop\<close> at index 95: that layer lies 0.8 below the
  top face, on the boundary of the strict comparison with the tolerance, where the rounding
  of \<open>96 * 0.2\<close> in the source's arithmetic decides.
\<close>

theorem cube_top_bottom:
  "sliceMesh cubeSlicer = Inr (Some cubeLayers)
   \<and> length (analyzeLayerSequences cubeSlicer cubeLayers) = 100
   \<and> (\<forall>i<100. isBottom (analyzeLayerSequences cubeSlicer cubeLayers ! i) = (i < 3)
              \<and> (96 \<le> i \<longrightarrow> isTop (analyzeLayerSequences cubeSlicer cubeLayers ! i))
              \<and> (i < 95 \<longrightarrow> \<not> isTop (analyzeLayerSequences cubeSlicer cubeLayers ! i)))"
  using cube_flags by (simp add: cube_sliceMesh cubeLayers_nth(2) analyze_length)

theorem cube_top_bottom_witness:
  "isBottom (analyzeLayerSequences cubeSlicer cubeLayers ! 2)
   \<and> \<not> isTop (analyzeLayerSequences cubeSlicer cubeLayers ! 2)
   \<and> \<not> isBottom (analyzeLayerSequences cubeSlicer cubeLayers ! 50)
   \<and> \<not> isTop (analyzeLayerSequences cubeSlicer cubeLayers ! 50)
   \<and> \<not> isBottom (analyzeLayerSequences cubeSlicer cubeLayers ! 94)
   \<and> \<not> isTop (analyzeLayerSequences cubeSlicer cubeLayers ! 94)
   \<and> \<not> isBottom (analyzeLayerSequences cubeSlicer cubeLayers ! 96)
   \<and> isTop (analyzeLayerSequences cubeSlicer cubeLayers ! 96)
   \<and> \<not> isBottom (analyzeLayerSequences cubeSlicer cubeLayers ! 99)
   \<and> isTop (analyzeLayerSequences cubeSlicer cubeLayers ! 99)"
proof -
  from cube_top_bottom have
    all: "\<forall>i<100. isBottom (analyzeLayerSequences cubeSlicer cubeLayers ! i) = (i < 3)
              \<and> (96 \<le> i \<longrightarrow> isTop (analyzeLayerSequences cubeSlicer cubeLayers ! i))
              \<and> (i < 95 \<longrightarrow> \<not> isTop (analyzeLayerSequences cubeSlicer cubeLayers ! i))"
    by blast
  from all[rule_format, of 2] all[rule_format, of 50] all[rule_format, of 94]
    all[rule_format, of 96] all[rule_format, of 99]
  show ?thesis by simp
qed

end
